theory Spec2Isabelle
  imports Complex_Main
begin

section \<open>The FashionMNIST notebook: data model\<close>

text \<open>
  The notebook \<^verbatim>\<open>projects/fashionMNIST.ipynb\<close> defines a three-layer perceptron, a
  training loop, an evaluation loop, saves and reloads the parameters and classifies one
  sample. Every Python exception is a value of type \<open>error\<close>; a function that can raise
  returns \<open>error + 'a\<close>. Tensor elements are read as real numbers.
\<close>

datatype error =
    IndexError | RuntimeError | ValueError | TypeError | ZeroDivisionError
  | FileNotFoundError | UnpicklingError | NotANumber

text \<open>A tensor is its shape and its elements in row-major order.\<close>

record tensor =
  shape :: "nat list"
  data :: "real list"

definition numel :: "nat list \<Rightarrow> nat" where
  "numel ds = prod_list ds"

definition wf_tensor :: "tensor \<Rightarrow> bool" where
  "wf_tensor t = (length (data t) = numel (shape t))"

text \<open>The \<open>k\<close> consecutive rows of length \<open>n\<close> of a row-major buffer.\<close>

definition rows :: "nat \<Rightarrow> nat \<Rightarrow> 'a list \<Rightarrow> 'a list list" where
  "rows n k xs = map (\<lambda>i. take n (drop (i * n) xs)) [0..<k]"

text \<open>A parameter carries its value and the gradient accumulated so far (unset at first).\<close>

record parameter =
  pdata :: tensor
  grad :: "tensor option"

record linear =
  in_features :: nat
  out_features :: nat
  weight :: parameter
  bias :: parameter

datatype module = Linear linear | ReLU

record NeuralNetwork =
  linear_relu_stack :: "module list"
  training :: bool

subsection \<open>Construction\<close>

text \<open>
  \<^verbatim>\<open>nn.Linear(i, o)\<close> allocates a weight of shape \<open>(o, i)\<close> and a bias of shape \<open>(o)\<close> and
  fills them with random numbers. The random source is the function \<open>rng\<close> from a position
  to a value; \<open>off\<close> is the number of values drawn before.
\<close>

definition nn_Linear :: "nat \<Rightarrow> nat \<Rightarrow> (nat \<Rightarrow> real) \<Rightarrow> nat \<Rightarrow> linear" where
  "nn_Linear i o' rng off =
     \<lparr>in_features = i, out_features = o',
      weight = \<lparr>pdata = \<lparr>shape = [o', i], data = map rng [off..<off + o' * i]\<rparr>, grad = None\<rparr>,
      bias = \<lparr>pdata = \<lparr>shape = [o'], data = map rng [off + o' * i..<off + o' * i + o']\<rparr>,
              grad = None\<rparr>\<rparr>"

definition NeuralNetwork_init :: "(nat \<Rightarrow> real) \<Rightarrow> NeuralNetwork" where
  "NeuralNetwork_init rng =
     \<lparr>linear_relu_stack =
        [Linear (nn_Linear (28 * 28) 512 rng 0),
         ReLU,
         Linear (nn_Linear 512 512 rng (512 * (28 * 28) + 512)),
         ReLU,
         Linear (nn_Linear 512 10 rng (512 * (28 * 28) + 512 + (512 * 512 + 512)))],
      training = True\<rparr>"

subsection \<open>Forward computation\<close>

text \<open>
  \<^verbatim>\<open>nn.Flatten()\<close> has \<open>start_dim = 1\<close>, \<open>end_dim = -1\<close>: it keeps dimension 0 and merges
  the others; a tensor with fewer than two dimensions has no dimension 1.
\<close>

definition Flatten :: "tensor \<Rightarrow> error + tensor" where
  "Flatten x = (case shape x of
       d # d' # ds \<Rightarrow> Inr (x\<lparr>shape := [d, numel (d' # ds)]\<rparr>)
     | _ \<Rightarrow> Inl IndexError)"

definition dot :: "real list \<Rightarrow> real list \<Rightarrow> real" where
  "dot u v = sum_list (map2 (*) u v)"

definition affine :: "real list list \<Rightarrow> real list \<Rightarrow> real list \<Rightarrow> real list" where
  "affine W b v = map2 (\<lambda>w c. dot w v + c) W b"

text \<open>
  A linear layer maps the last dimension, of size \<open>in_features\<close>, to \<open>out_features\<close>
  (\<open>x W\<^sup>T + b\<close>) and keeps the leading ones; any other last dimension is a shape mismatch.
\<close>

definition Linear_forward :: "linear \<Rightarrow> tensor \<Rightarrow> error + tensor" where
  "Linear_forward l x = (case rev (shape x) of
       [] \<Rightarrow> Inl RuntimeError
     | n # ds \<Rightarrow>
         if n \<noteq> in_features l then Inl RuntimeError
         else Inr \<lparr>shape = rev ds @ [out_features l],
                   data = concat (map
                     (affine (rows (in_features l) (out_features l) (data (pdata (weight l))))
                        (data (pdata (bias l))))
                     (rows n (numel ds) (data x)))\<rparr>)"

definition ReLU_forward :: "tensor \<Rightarrow> tensor" where
  "ReLU_forward x = x\<lparr>data := map (max 0) (data x)\<rparr>"

fun module_forward :: "module \<Rightarrow> tensor \<Rightarrow> error + tensor" where
  "module_forward (Linear l) x = Linear_forward l x"
| "module_forward ReLU x = Inr (ReLU_forward x)"

fun Sequential_forward :: "module list \<Rightarrow> tensor \<Rightarrow> error + tensor" where
  "Sequential_forward [] x = Inr x"
| "Sequential_forward (m # ms) x =
     (case module_forward m x of Inl e \<Rightarrow> Inl e | Inr y \<Rightarrow> Sequential_forward ms y)"

definition forward :: "NeuralNetwork \<Rightarrow> tensor \<Rightarrow> error + tensor" where
  "forward m x = (case Flatten x of
       Inl e \<Rightarrow> Inl e
     | Inr x' \<Rightarrow> Sequential_forward (linear_relu_stack m) x')"

subsection \<open>The network the specification describes\<close>

text \<open>
  Written from the specification's words, for one flattened sample \<open>v\<close>: a linear layer
  \<open>n \<rightarrow> k\<close> computes \<open>(\<Sum>i<n. W[j, i] * v[i]) + b[j]\<close> for every \<open>j < k\<close>; the network is
  linear 784 \<rightarrow> 512, rectifier, linear 512 \<rightarrow> 512, rectifier, linear 512 \<rightarrow> 10.
\<close>

definition spec_linear :: "nat \<Rightarrow> nat \<Rightarrow> linear \<Rightarrow> real list \<Rightarrow> real list" where
  "spec_linear n k l v =
     map (\<lambda>j. (\<Sum>i<n. data (pdata (weight l)) ! (j * n + i) * v ! i) + data (pdata (bias l)) ! j)
       [0..<k]"

definition spec_relu :: "real list \<Rightarrow> real list" where
  "spec_relu v = map (\<lambda>a. if a < 0 then 0 else a) v"

definition spec_network :: "linear \<Rightarrow> linear \<Rightarrow> linear \<Rightarrow> real list \<Rightarrow> real list" where
  "spec_network l1 l2 l3 v =
     spec_linear 512 10 l3 (spec_relu (spec_linear 512 512 l2 (spec_relu (spec_linear 784 512 l1 v))))"

text \<open>The linear layers of a model, in the order of the stack.\<close>

definition linear_layers :: "NeuralNetwork \<Rightarrow> linear list" where
  "linear_layers m =
     concat (map (\<lambda>md. case md of Linear l \<Rightarrow> [l] | ReLU \<Rightarrow> []) (linear_relu_stack m))"

definition spec_forward :: "NeuralNetwork \<Rightarrow> real list \<Rightarrow> real list" where
  "spec_forward m v = (case linear_layers m of
       [l1, l2, l3] \<Rightarrow> spec_network l1 l2 l3 v
     | _ \<Rightarrow> [])"

subsection \<open>Well-formed models\<close>

text \<open>
  The topology \<^verbatim>\<open>NeuralNetwork.__init__\<close> builds: the parameter shapes of
  \<^verbatim>\<open>nn.Linear(i, o)\<close>, and the five modules of the stack in their order.
\<close>

definition wf_parameter :: "nat list \<Rightarrow> parameter \<Rightarrow> bool" where
  "wf_parameter s p = (shape (pdata p) = s \<and> length (data (pdata p)) = numel s)"

definition wf_linear :: "nat \<Rightarrow> nat \<Rightarrow> linear \<Rightarrow> bool" where
  "wf_linear i o' l =
     (in_features l = i \<and> out_features l = o' \<and>
      wf_parameter [o', i] (weight l) \<and> wf_parameter [o'] (bias l))"

fun wf_stack :: "module list \<Rightarrow> bool" where
  "wf_stack [Linear l1, ReLU, Linear l2, ReLU, Linear l3] =
     (wf_linear 784 512 l1 \<and> wf_linear 512 512 l2 \<and> wf_linear 512 10 l3)"
| "wf_stack _ = False"

definition wf_model :: "NeuralNetwork \<Rightarrow> bool" where
  "wf_model m = wf_stack (linear_relu_stack m)"

section \<open>Data sets and batches\<close>

text \<open>
  A sample is an image tensor and its label. The labels of the data set are read from
  unsigned bytes, so a label is a natural number.
\<close>

type_synonym sample = "tensor \<times> nat"

type_synonym batch = "tensor \<times> nat list"

text \<open>The images of the data set have shape \<open>(1, 28, 28)\<close>.\<close>

definition wf_sample :: "sample \<Rightarrow> bool" where
  "wf_sample s = (shape (fst s) = [1, 28, 28] \<and> length (data (fst s)) = 784)"

record DataLoader =
  dataset :: "sample list"
  batch_size :: nat

text \<open>\<^verbatim>\<open>len(dataloader)\<close>: the number of batches, the last one possibly shorter.\<close>

definition len_DataLoader :: "DataLoader \<Rightarrow> nat" where
  "len_DataLoader dl = (length (dataset dl) + batch_size dl - 1) div batch_size dl"

text \<open>The samples of each batch, in the order of the data set (no shuffling).\<close>

definition chunks :: "DataLoader \<Rightarrow> sample list list" where
  "chunks dl = rows (batch_size dl) (len_DataLoader dl) (dataset dl)"

text \<open>
  The default collation stacks the images of a batch along a new first dimension, which
  needs images of one shape, and gathers the labels.
\<close>

definition collate :: "sample list \<Rightarrow> error + batch" where
  "collate ss = (case ss of
       [] \<Rightarrow> Inl RuntimeError
     | s0 # _ \<Rightarrow>
         if list_all (\<lambda>s. shape (fst s) = shape (fst s0)) ss
         then Inr (\<lparr>shape = length ss # shape (fst s0), data = concat (map (\<lambda>s. data (fst s)) ss)\<rparr>,
                   map snd ss)
         else Inl RuntimeError)"

text \<open>\<^verbatim>\<open>len(X)\<close> is the size of the first dimension.\<close>

definition len_tensor :: "tensor \<Rightarrow> error + nat" where
  "len_tensor x = (case shape x of [] \<Rightarrow> Inl TypeError | d # _ \<Rightarrow> Inr d)"

section \<open>Loss, argmax\<close>

text \<open>
  \<^verbatim>\<open>nn.CrossEntropyLoss()\<close> on scores of shape \<open>(n, c)\<close> and \<open>n\<close> class indices: the mean
  over the batch of minus the log-softmax score of the true class. A class index outside
  \<open>[0, c)\<close> is an error. The mean over an empty batch is not a number, which no real
  stands for: it is the value \<open>NotANumber\<close>. This is the loss over exact reals; overflow and
  not-a-number are the subject of the section on float32 arithmetic.
\<close>

definition log_softmax :: "real list \<Rightarrow> real list" where
  "log_softmax row = map (\<lambda>a. a - ln (sum_list (map exp row))) row"

definition nll :: "real list \<Rightarrow> nat \<Rightarrow> real" where
  "nll row t = - (log_softmax row ! t)"

definition CrossEntropyLoss :: "tensor \<Rightarrow> nat list \<Rightarrow> error + real" where
  "CrossEntropyLoss pred y = (case shape pred of
       [n, c] \<Rightarrow>
         if n \<noteq> length y then Inl ValueError
         else if \<not> list_all (\<lambda>t. t < c) y then Inl IndexError
         else if n = 0 then Inl NotANumber
         else Inr (sum_list (map2 nll (rows c n (data pred)) y) / real n)
     | _ \<Rightarrow> Inl ValueError)"

text \<open>The index of the first greatest element.\<close>

fun argmax_list :: "real list \<Rightarrow> nat" where
  "argmax_list [] = 0"
| "argmax_list [a] = 0"
| "argmax_list (a # b # bs) =
     (let k = argmax_list (b # bs) in if (b # bs) ! k > a then Suc k else 0)"

text \<open>
  \<^verbatim>\<open>pred.argmax(1)\<close> on scores of shape \<open>(n, c)\<close>: one index per row. The forward
  computation only returns two-dimensional tensors, so other ranks are not modelled.
\<close>

definition argmax1 :: "tensor \<Rightarrow> error + nat list" where
  "argmax1 t = (case shape t of
       [n, c] \<Rightarrow> if c = 0 then Inl IndexError else Inr (map argmax_list (rows c n (data t)))
     | _ \<Rightarrow> Inl IndexError)"

text \<open>
  \<^verbatim>\<open>(pred.argmax(1) == y).type(torch.float).sum().item()\<close>: the number of positions
  where prediction and label agree. Both have the batch's length here.
\<close>

definition count_equal :: "nat list \<Rightarrow> nat list \<Rightarrow> error + real" where
  "count_equal p y =
     (if length p \<noteq> length y then Inl RuntimeError
      else Inr (sum_list (map2 (\<lambda>a b. if a = b then 1 else 0) p y)))"

text \<open>
  What the evaluation counts, sample by sample: the predicted class of an image is the
  index of the greatest of its ten scores, and a sample is classified correctly when that
  index is its label.
\<close>

definition predicted_class :: "NeuralNetwork \<Rightarrow> tensor \<Rightarrow> nat" where
  "predicted_class m x = argmax_list (spec_forward m (data x))"

definition correct_samples :: "NeuralNetwork \<Rightarrow> sample list \<Rightarrow> sample list" where
  "correct_samples m ss = filter (\<lambda>s. predicted_class m (fst s) = snd s) ss"

text \<open>The loss value of one batch of the data loader under a model.\<close>

definition batch_loss ::
  "NeuralNetwork \<Rightarrow> (tensor \<Rightarrow> nat list \<Rightarrow> error + real) \<Rightarrow> sample list \<Rightarrow> error + real" where
  "batch_loss m loss_fn c = (case collate c of
       Inl e \<Rightarrow> Inl e
     | Inr (X, y) \<Rightarrow> (case forward m X of Inl e \<Rightarrow> Inl e | Inr pred \<Rightarrow> loss_fn pred y))"

text \<open>
  Written from the specification's words: \<open>k\<close> is the index of the maximum of the scores
  \<open>xs\<close> when it is an index of \<open>xs\<close>, no score is greater than the one at \<open>k\<close>, and every
  score before \<open>k\<close> is smaller (of several greatest scores the first counts). A sample is
  classified correctly when its label is the index of the maximum of the scores the
  specification's network gives its image.
\<close>

definition index_of_maximum :: "nat \<Rightarrow> real list \<Rightarrow> bool" where
  "index_of_maximum k xs =
     (k < length xs \<and> list_all (\<lambda>j. xs ! j \<le> xs ! k) [0..<length xs]
      \<and> list_all (\<lambda>j. xs ! j < xs ! k) [0..<k])"

definition classified_correctly :: "NeuralNetwork \<Rightarrow> sample \<Rightarrow> bool" where
  "classified_correctly m s = index_of_maximum (snd s) (spec_forward m (data (fst s)))"

text \<open>The scores of a batch of samples: one row of ten scores for each sample.\<close>

definition batch_scores :: "NeuralNetwork \<Rightarrow> sample list \<Rightarrow> tensor" where
  "batch_scores m c =
     \<lparr>shape = [length c, 10], data = concat (map (\<lambda>s. spec_forward m (data (fst s))) c)\<rparr>"

section \<open>Gradients and the optimizer\<close>

text \<open>
  Parameters are named by their place in the module tree, as in the state dictionary:
  \<^verbatim>\<open>linear_relu_stack.0.weight\<close>, \<^verbatim>\<open>linear_relu_stack.0.bias\<close>, ...
\<close>

function string_of_nat :: "nat \<Rightarrow> string" where
  "string_of_nat n =
     (if n < 10 then [''0123456789'' ! n]
      else string_of_nat (n div 10) @ [''0123456789'' ! (n mod 10)])"
  by pat_completeness auto
termination
  by (relation "measure id") auto

definition submodule_name :: "nat \<Rightarrow> string" where
  "submodule_name i = ''linear_relu_stack.'' @ string_of_nat i"

fun named_parameters_of :: "string \<Rightarrow> module \<Rightarrow> (string \<times> parameter) list" where
  "named_parameters_of prefix (Linear l) =
     [(prefix @ ''.weight'', weight l), (prefix @ ''.bias'', bias l)]"
| "named_parameters_of prefix ReLU = []"

definition named_parameters :: "NeuralNetwork \<Rightarrow> (string \<times> parameter) list" where
  "named_parameters m =
     concat (map (\<lambda>(i, md). named_parameters_of (submodule_name i) md)
       (enumerate 0 (linear_relu_stack m)))"

definition state_dict :: "NeuralNetwork \<Rightarrow> (string \<times> tensor) list" where
  "state_dict m = map (\<lambda>(k, p). (k, pdata p)) (named_parameters m)"

text \<open>An in-place update of every parameter, given its name.\<close>

fun map_module_parameters ::
  "(string \<Rightarrow> parameter \<Rightarrow> parameter) \<Rightarrow> string \<Rightarrow> module \<Rightarrow> module" where
  "map_module_parameters f prefix (Linear l) =
     Linear (l\<lparr>weight := f (prefix @ ''.weight'') (weight l),
               bias := f (prefix @ ''.bias'') (bias l)\<rparr>)"
| "map_module_parameters f prefix ReLU = ReLU"

definition map_named_parameters ::
  "(string \<Rightarrow> parameter \<Rightarrow> parameter) \<Rightarrow> NeuralNetwork \<Rightarrow> NeuralNetwork" where
  "map_named_parameters f m =
     m\<lparr>linear_relu_stack :=
         map (\<lambda>(i, md). map_module_parameters f (submodule_name i) md)
           (enumerate 0 (linear_relu_stack m))\<rparr>"

text \<open>
  Automatic differentiation belongs to the library. It is the function \<open>ag\<close>: from the
  parameter values, the batch inputs and the batch labels to the gradient of the loss with
  respect to each named parameter.
\<close>

type_synonym autograd = "(string \<times> tensor) list \<Rightarrow> tensor \<Rightarrow> nat list \<Rightarrow> string \<Rightarrow> tensor"

definition tensor_add :: "tensor \<Rightarrow> tensor \<Rightarrow> tensor" where
  "tensor_add a b = a\<lparr>data := map2 (+) (data a) (data b)\<rparr>"

text \<open>\<^verbatim>\<open>loss.backward()\<close> adds the new gradient to the one a parameter already holds.\<close>

definition accumulate :: "tensor \<Rightarrow> parameter \<Rightarrow> parameter" where
  "accumulate g p =
     p\<lparr>grad := (case grad p of None \<Rightarrow> Some g | Some old \<Rightarrow> Some (tensor_add old g))\<rparr>"

definition backward :: "(string \<Rightarrow> tensor) \<Rightarrow> NeuralNetwork \<Rightarrow> NeuralNetwork" where
  "backward g m = map_named_parameters (\<lambda>k p. accumulate (g k) p) m"

text \<open>
  \<^verbatim>\<open>torch.optim.SGD(model.parameters(), lr=1e-3)\<close>. Whether \<^verbatim>\<open>zero_grad()\<close> unsets the
  gradients or fills them with zeros is the library version's default, \<open>set_to_none\<close>.
\<close>

record optimizer =
  lr :: real
  set_to_none :: bool

definition SGD :: "bool \<Rightarrow> optimizer" where
  "SGD stn = \<lparr>lr = 1 / 1000, set_to_none = stn\<rparr>"

definition sgd_update :: "real \<Rightarrow> tensor \<Rightarrow> tensor \<Rightarrow> tensor" where
  "sgd_update r p g = p\<lparr>data := map2 (\<lambda>a d. a - r * d) (data p) (data g)\<rparr>"

definition step_parameter :: "optimizer \<Rightarrow> parameter \<Rightarrow> parameter" where
  "step_parameter opt p =
     (case grad p of None \<Rightarrow> p | Some g \<Rightarrow> p\<lparr>pdata := sgd_update (lr opt) (pdata p) g\<rparr>)"

definition step :: "optimizer \<Rightarrow> NeuralNetwork \<Rightarrow> NeuralNetwork" where
  "step opt m = map_named_parameters (\<lambda>k p. step_parameter opt p) m"

definition zeros_like :: "tensor \<Rightarrow> tensor" where
  "zeros_like t = t\<lparr>data := map (\<lambda>a. 0) (data t)\<rparr>"

definition zero_grad_parameter :: "optimizer \<Rightarrow> parameter \<Rightarrow> parameter" where
  "zero_grad_parameter opt p =
     (if set_to_none opt then p\<lparr>grad := None\<rparr>
      else p\<lparr>grad := map_option zeros_like (grad p)\<rparr>)"

definition zero_grad :: "optimizer \<Rightarrow> NeuralNetwork \<Rightarrow> NeuralNetwork" where
  "zero_grad opt m = map_named_parameters (\<lambda>k p. zero_grad_parameter opt p) m"

section \<open>The program state\<close>

text \<open>
  The state the notebook's cells share: the model, what was printed, and the record of the
  calls made to the model, the loss function, the gradient computation and the optimizer,
  in program order. Each operation below appends its own entry.
\<close>

datatype call =
    CallModel tensor | CallLoss "nat list" | CallBackward | CallStep | CallZeroGrad

datatype printed =
    EpochHeader nat | LossLine real nat nat | TestError real real | DoneLine
  | Prediction string string

record world =
  model :: NeuralNetwork
  calls :: "call list"
  stdout :: "printed list"

definition call_model :: "tensor \<Rightarrow> world \<Rightarrow> error + (tensor \<times> world)" where
  "call_model X w = (case forward (model w) X of
       Inl e \<Rightarrow> Inl e
     | Inr pred \<Rightarrow> Inr (pred, w\<lparr>calls := calls w @ [CallModel X]\<rparr>))"

type_synonym loss_fn = "tensor \<Rightarrow> nat list \<Rightarrow> error + real"

definition call_loss :: "loss_fn \<Rightarrow> tensor \<Rightarrow> nat list \<Rightarrow> world \<Rightarrow> error + (real \<times> world)" where
  "call_loss loss_fn pred y w = (case loss_fn pred y of
       Inl e \<Rightarrow> Inl e
     | Inr loss \<Rightarrow> Inr (loss, w\<lparr>calls := calls w @ [CallLoss y]\<rparr>))"

definition loss_backward :: "autograd \<Rightarrow> tensor \<Rightarrow> nat list \<Rightarrow> world \<Rightarrow> world" where
  "loss_backward ag X y w =
     w\<lparr>model := backward (ag (state_dict (model w)) X y) (model w),
       calls := calls w @ [CallBackward]\<rparr>"

definition optimizer_step :: "optimizer \<Rightarrow> world \<Rightarrow> world" where
  "optimizer_step opt w = w\<lparr>model := step opt (model w), calls := calls w @ [CallStep]\<rparr>"

definition optimizer_zero_grad :: "optimizer \<Rightarrow> world \<Rightarrow> world" where
  "optimizer_zero_grad opt w =
     w\<lparr>model := zero_grad opt (model w), calls := calls w @ [CallZeroGrad]\<rparr>"

definition print_line :: "printed \<Rightarrow> world \<Rightarrow> world" where
  "print_line p w = w\<lparr>stdout := stdout w @ [p]\<rparr>"

section \<open>The training loop\<close>

text \<open>The body of the \<^verbatim>\<open>for batch, (X, y) in enumerate(dataloader)\<close> loop of \<^verbatim>\<open>train\<close>.\<close>

definition train_batch ::
  "autograd \<Rightarrow> loss_fn \<Rightarrow> optimizer \<Rightarrow> nat \<Rightarrow> nat \<Rightarrow> batch \<Rightarrow> world \<Rightarrow> error + world" where
  "train_batch ag loss_fn opt size_ds batch Xy w =
     (case Xy of (X, y) \<Rightarrow>
     (case call_model X w of Inl e \<Rightarrow> Inl e | Inr (pred, w1) \<Rightarrow>
     (case call_loss loss_fn pred y w1 of Inl e \<Rightarrow> Inl e | Inr (loss, w2) \<Rightarrow>
      let w3 = loss_backward ag X y w2;
          w4 = optimizer_step opt w3;
          w5 = optimizer_zero_grad opt w4
      in if batch mod 100 = 0
         then (case len_tensor X of
                 Inl e \<Rightarrow> Inl e
               | Inr n \<Rightarrow> Inr (print_line (LossLine loss ((batch + 1) * n) size_ds) w5))
         else Inr w5)))"

fun train_loop ::
  "autograd \<Rightarrow> loss_fn \<Rightarrow> optimizer \<Rightarrow> nat \<Rightarrow> nat \<Rightarrow> sample list list \<Rightarrow> world \<Rightarrow> error + world"
where
  "train_loop ag loss_fn opt size_ds batch [] w = Inr w"
| "train_loop ag loss_fn opt size_ds batch (c # cs) w =
     (case collate c of Inl e \<Rightarrow> Inl e | Inr Xy \<Rightarrow>
     (case train_batch ag loss_fn opt size_ds batch Xy w of Inl e \<Rightarrow> Inl e | Inr w' \<Rightarrow>
      train_loop ag loss_fn opt size_ds (Suc batch) cs w'))"

definition train ::
  "autograd \<Rightarrow> DataLoader \<Rightarrow> loss_fn \<Rightarrow> optimizer \<Rightarrow> world \<Rightarrow> error + world" where
  "train ag dataloader loss_fn opt w =
     (let size_ds = length (dataset dataloader);
          w0 = w\<lparr>model := (model w)\<lparr>training := True\<rparr>\<rparr>
      in train_loop ag loss_fn opt size_ds 0 (chunks dataloader) w0)"

section \<open>The evaluation loop\<close>

text \<open>
  The loop of \<^verbatim>\<open>test\<close> under \<^verbatim>\<open>torch.no_grad()\<close>: the running \<^verbatim>\<open>test_loss\<close> and
  \<^verbatim>\<open>correct\<close> are the pair \<open>acc\<close>.
\<close>

definition test_batch :: "loss_fn \<Rightarrow> batch \<Rightarrow> real \<times> real \<Rightarrow> world \<Rightarrow> error + ((real \<times> real) \<times> world)"
where
  "test_batch loss_fn Xy acc w =
     (case Xy of (X, y) \<Rightarrow>
     (case call_model X w of Inl e \<Rightarrow> Inl e | Inr (pred, w1) \<Rightarrow>
     (case call_loss loss_fn pred y w1 of Inl e \<Rightarrow> Inl e | Inr (loss, w2) \<Rightarrow>
     (case argmax1 pred of Inl e \<Rightarrow> Inl e | Inr p \<Rightarrow>
     (case count_equal p y of Inl e \<Rightarrow> Inl e | Inr c \<Rightarrow>
      Inr ((fst acc + loss, snd acc + c), w2))))))"

fun test_loop ::
  "loss_fn \<Rightarrow> sample list list \<Rightarrow> real \<times> real \<Rightarrow> world \<Rightarrow> error + ((real \<times> real) \<times> world)" where
  "test_loop loss_fn [] acc w = Inr (acc, w)"
| "test_loop loss_fn (c # cs) acc w =
     (case collate c of Inl e \<Rightarrow> Inl e | Inr Xy \<Rightarrow>
     (case test_batch loss_fn Xy acc w of Inl e \<Rightarrow> Inl e | Inr (acc', w') \<Rightarrow>
      test_loop loss_fn cs acc' w'))"

definition test :: "DataLoader \<Rightarrow> loss_fn \<Rightarrow> world \<Rightarrow> error + world" where
  "test dataloader loss_fn w =
     (let size_ds = length (dataset dataloader);
          num_batches = len_DataLoader dataloader;
          w0 = w\<lparr>model := (model w)\<lparr>training := False\<rparr>\<rparr>
      in case test_loop loss_fn (chunks dataloader) (0, 0) w0 of
           Inl e \<Rightarrow> Inl e
         | Inr ((test_loss, correct), w1) \<Rightarrow>
             if num_batches = 0 then Inl ZeroDivisionError
             else if size_ds = 0 then Inl ZeroDivisionError
             else Inr (print_line (TestError (100 * (correct / real size_ds))
                               (test_loss / real num_batches)) w1))"

section \<open>The epochs\<close>

definition epochs :: nat where
  "epochs = 5"

fun epochs_loop ::
  "autograd \<Rightarrow> DataLoader \<Rightarrow> DataLoader \<Rightarrow> loss_fn \<Rightarrow> optimizer \<Rightarrow> nat list \<Rightarrow> world
     \<Rightarrow> error + world" where
  "epochs_loop ag train_dataloader test_dataloader loss_fn opt [] w = Inr w"
| "epochs_loop ag train_dataloader test_dataloader loss_fn opt (t # ts) w =
     (case train ag train_dataloader loss_fn opt (print_line (EpochHeader (t + 1)) w) of
        Inl e \<Rightarrow> Inl e
      | Inr w1 \<Rightarrow>
     (case test test_dataloader loss_fn w1 of
        Inl e \<Rightarrow> Inl e
      | Inr w2 \<Rightarrow> epochs_loop ag train_dataloader test_dataloader loss_fn opt ts w2))"

definition run_epochs ::
  "autograd \<Rightarrow> DataLoader \<Rightarrow> DataLoader \<Rightarrow> loss_fn \<Rightarrow> optimizer \<Rightarrow> world \<Rightarrow> error + world" where
  "run_epochs ag train_dataloader test_dataloader loss_fn opt w =
     (case epochs_loop ag train_dataloader test_dataloader loss_fn opt [0..<epochs] w of
        Inl e \<Rightarrow> Inl e
      | Inr w' \<Rightarrow> Inr (print_line DoneLine w'))"

text \<open>The calls the evaluation loop makes for one batch.\<close>

definition test_calls :: "batch \<Rightarrow> call list" where
  "test_calls Xy = [CallModel (fst Xy), CallLoss (snd Xy)]"

section \<open>Saving and loading the parameters\<close>

text \<open>
  Modelled from the spec: \<^verbatim>\<open>torch.save\<close>, \<^verbatim>\<open>torch.load\<close> and
  \<^verbatim>\<open>Module.load_state_dict\<close> are library code, absent from the repository's source.
  The specification (sections 4.4 and 6) says: saving writes the model's current parameter
  values, not its topology, to a named file, overwriting it; the format is opaque and owned
  by the persistence mechanism; loading replaces the parameter values of an already
  constructed model and fails if the file is absent, corrupt, or its parameter shapes do not
  match the live model's topology exactly. A file is therefore either a stored state
  dictionary or something else (\<open>OtherFile\<close>, a corrupt file); loading is strict: every
  parameter of the model must be in the file with the model's shape, and the file must hold
  nothing else.
\<close>

datatype stored_file = StateDictFile "(string \<times> tensor) list" | OtherFile "nat list"

type_synonym filesystem = "string \<Rightarrow> stored_file option"

definition torch_save :: "(string \<times> tensor) list \<Rightarrow> string \<Rightarrow> filesystem \<Rightarrow> filesystem" where
  "torch_save sd path fs = fs(path \<mapsto> StateDictFile sd)"

definition torch_load :: "string \<Rightarrow> filesystem \<Rightarrow> error + (string \<times> tensor) list" where
  "torch_load path fs = (case fs path of
       None \<Rightarrow> Inl FileNotFoundError
     | Some (OtherFile bytes) \<Rightarrow> Inl UnpicklingError
     | Some (StateDictFile sd) \<Rightarrow> Inr sd)"

definition missing_keys :: "(string \<times> tensor) list \<Rightarrow> NeuralNetwork \<Rightarrow> string list" where
  "missing_keys sd m = filter (\<lambda>k. map_of sd k = None) (map fst (named_parameters m))"

definition unexpected_keys :: "(string \<times> tensor) list \<Rightarrow> NeuralNetwork \<Rightarrow> string list" where
  "unexpected_keys sd m = filter (\<lambda>k. k \<notin> set (map fst (named_parameters m))) (map fst sd)"

definition size_mismatches :: "(string \<times> tensor) list \<Rightarrow> NeuralNetwork \<Rightarrow> string list" where
  "size_mismatches sd m =
     map fst (filter (\<lambda>(k, p). case map_of sd k of None \<Rightarrow> False
                                | Some t \<Rightarrow> shape t \<noteq> shape (pdata p))
       (named_parameters m))"

definition copy_parameter :: "(string \<times> tensor) list \<Rightarrow> string \<Rightarrow> parameter \<Rightarrow> parameter" where
  "copy_parameter sd k p = (case map_of sd k of None \<Rightarrow> p | Some t \<Rightarrow> p\<lparr>pdata := t\<rparr>)"

definition load_state_dict :: "(string \<times> tensor) list \<Rightarrow> NeuralNetwork \<Rightarrow> error + NeuralNetwork"
where
  "load_state_dict sd m =
     (if missing_keys sd m = [] \<and> unexpected_keys sd m = [] \<and> size_mismatches sd m = []
      then Inr (map_named_parameters (copy_parameter sd) m)
      else Inl RuntimeError)"

text \<open>
  The two cells of the notebook: \<^verbatim>\<open>torch.save(model.state_dict(), "model.pth")\<close>, and
  \<^verbatim>\<open>model = NeuralNetwork(); model.load_state_dict(torch.load("model.pth"))\<close>, where
  \<open>rng\<close> is the random source of the new model's initialisation.
\<close>

definition save_model :: "string \<Rightarrow> world \<Rightarrow> filesystem \<Rightarrow> filesystem" where
  "save_model path w fs = torch_save (state_dict (model w)) path fs"

definition load_model :: "(nat \<Rightarrow> real) \<Rightarrow> string \<Rightarrow> filesystem \<Rightarrow> world \<Rightarrow> error + world" where
  "load_model rng path fs w = (case torch_load path fs of
       Inl e \<Rightarrow> Inl e
     | Inr sd \<Rightarrow> (case load_state_dict sd (NeuralNetwork_init rng) of
         Inl e \<Rightarrow> Inl e
       | Inr m \<Rightarrow> Inr (w\<lparr>model := m\<rparr>)))"

section \<open>Classifying one sample\<close>

definition classes :: "string list" where
  "classes = [''T-shirt/top'', ''Trouser'', ''Pullover'', ''Dress'', ''Coat'', ''Sandal'',
     ''Shirt'', ''Sneaker'', ''Bag'', ''Ankle boot'']"

text \<open>Indexing a list or a data set with a non-negative index.\<close>

definition getitem :: "'a list \<Rightarrow> nat \<Rightarrow> error + 'a" where
  "getitem xs i = (if i < length xs then Inr (xs ! i) else Inl IndexError)"

text \<open>\<^verbatim>\<open>pred[i]\<close>: the \<open>i\<close>-th slice along the first dimension.\<close>

definition select0 :: "tensor \<Rightarrow> nat \<Rightarrow> error + tensor" where
  "select0 t i = (case shape t of
       [] \<Rightarrow> Inl IndexError
     | d # ds \<Rightarrow>
         if i < d then Inr \<lparr>shape = ds, data = take (numel ds) (drop (i * numel ds) (data t))\<rparr>
         else Inl IndexError)"

text \<open>
  \<^verbatim>\<open>row.argmax(0)\<close> used as a list index: the row is one-dimensional here, and only a
  single index can index a list.
\<close>

definition argmax0 :: "tensor \<Rightarrow> error + nat" where
  "argmax0 t = (case shape t of
       [c] \<Rightarrow> if c = 0 then Inl IndexError else Inr (argmax_list (data t))
     | _ \<Rightarrow> Inl TypeError)"

definition predict :: "sample list \<Rightarrow> world \<Rightarrow> error + world" where
  "predict test_data w =
     (let w0 = w\<lparr>model := (model w)\<lparr>training := False\<rparr>\<rparr> in
      case getitem test_data 1 of Inl e \<Rightarrow> Inl e | Inr (x, y) \<Rightarrow>
     (case call_model x w0 of Inl e \<Rightarrow> Inl e | Inr (pred, w1) \<Rightarrow>
     (case select0 pred 0 of Inl e \<Rightarrow> Inl e | Inr row \<Rightarrow>
     (case argmax0 row of Inl e \<Rightarrow> Inl e | Inr k \<Rightarrow>
     (case getitem classes k of Inl e \<Rightarrow> Inl e | Inr predicted \<Rightarrow>
     (case getitem classes y of Inl e \<Rightarrow> Inl e | Inr actual \<Rightarrow>
      Inr (print_line (Prediction predicted actual) w1)))))))"

section \<open>Invariants of training\<close>

text \<open>
  A gradient is clean when it is unset or a zero tensor of its parameter's shape: the two
  states \<^verbatim>\<open>zero_grad\<close> can leave it in.
\<close>

definition grad_clean :: "parameter \<Rightarrow> bool" where
  "grad_clean p = (case grad p of
       None \<Rightarrow> True
     | Some g \<Rightarrow> shape g = shape (pdata p) \<and> data g = replicate (length (data (pdata p))) 0)"

definition grads_clean :: "NeuralNetwork \<Rightarrow> bool" where
  "grads_clean m = list_all (\<lambda>kp. grad_clean (snd kp)) (named_parameters m)"

text \<open>
  What is assumed of the library's automatic differentiation: the gradient with respect to
  a parameter has that parameter's shape and size.
\<close>

definition autograd_wf :: "autograd \<Rightarrow> bool" where
  "autograd_wf ag = (\<forall>sd X y k t. distinct (map fst sd) \<longrightarrow> (k, t) \<in> set sd \<longrightarrow>
     shape (ag sd X y k) = shape t \<and> length (data (ag sd X y k)) = length (data t))"

text \<open>The calls the training loop makes for one batch.\<close>

definition train_calls :: "batch \<Rightarrow> call list" where
  "train_calls Xy = [CallModel (fst Xy), CallLoss (snd Xy), CallBackward, CallStep, CallZeroGrad]"

text \<open>One plain gradient-descent update of every parameter value by the gradient \<open>g\<close>.\<close>

definition sgd_state :: "real \<Rightarrow> (string \<Rightarrow> tensor) \<Rightarrow> (string \<times> tensor) list \<Rightarrow> (string \<times> tensor) list"
where
  "sgd_state r g sd = map (\<lambda>(k, t). (k, sgd_update r t (g k))) sd"

section \<open>Example inputs\<close>

definition zero_image :: tensor where
  "zero_image = \<lparr>shape = [1, 28, 28], data = replicate 784 0\<rparr>"

definition zero_model :: NeuralNetwork where
  "zero_model = NeuralNetwork_init (\<lambda>i. 0)"

definition zero_world :: world where
  "zero_world = \<lparr>model = zero_model, calls = [], stdout = []\<rparr>"

definition two_samples :: DataLoader where
  "two_samples = \<lparr>dataset = [(zero_image, 0), (zero_image, 3)], batch_size = 64\<rparr>"

definition zero_autograd :: autograd where
  "zero_autograd sd X y k = (case map_of sd k of
       None \<Rightarrow> \<lparr>shape = [], data = []\<rparr>
     | Some t \<Rightarrow> zeros_like t)"

text \<open>
  A model whose scores depend on the image: all parameters are 0 except four, which pass the
  first pixel through both hidden layers to the score of class 1 and give class 0 the
  constant score 1/2.
\<close>

definition point_rng :: "(nat \<times> real) list \<Rightarrow> nat \<Rightarrow> real" where
  "point_rng ps i = (case map_of ps i of None \<Rightarrow> 0 | Some a \<Rightarrow> a)"

definition pixel_rng :: "nat \<Rightarrow> real" where
  "pixel_rng = point_rng [(0, 1), (401920, 1), (665088, 1), (669696, 1 / 2)]"

definition pixel_model :: NeuralNetwork where
  "pixel_model = NeuralNetwork_init pixel_rng"

definition pixel_world :: world where
  "pixel_world = \<lparr>model = pixel_model, calls = [], stdout = []\<rparr>"

definition bright_image :: tensor where
  "bright_image = \<lparr>shape = [1, 28, 28], data = 1 # replicate 783 0\<rparr>"

text \<open>Three samples in batches of two: the loader yields two batches.\<close>

definition three_samples :: DataLoader where
  "three_samples =
     \<lparr>dataset = [(bright_image, 1), (zero_image, 0), (bright_image, 0)], batch_size = 2\<rparr>"

section \<open>The evaluation loop in float32 arithmetic\<close>

text \<open>
  In the program the scores and the loss are float32 numbers: a finite number, an infinity
  or not-a-number. This section is the evaluation loop once more, with the arithmetic of
  such values in place of exact reals. A result beyond the largest finite number of the
  format overflows to an infinity; a result that is not defined (\<open>inf - inf\<close>, \<open>0 * inf\<close>,
  the logarithm of a negative number) is not-a-number, and not-a-number propagates. The
  rounding of a result within the range is not modelled. The parameter \<open>mx\<close> of an operation
  is the largest finite number of its format.
\<close>

datatype ieee = Finite real | PosInf | NegInf | NaN



definition overflow :: "real \<Rightarrow> real \<Rightarrow> ieee" where
  "overflow mx a = (if a > mx then PosInf else if a < - mx then NegInf else Finite a)"


fun ieee_add :: "real \<Rightarrow> ieee \<Rightarrow> ieee \<Rightarrow> ieee" where
  "ieee_add mx NaN b = NaN"
| "ieee_add mx a NaN = NaN"
| "ieee_add mx PosInf NegInf = NaN"
| "ieee_add mx NegInf PosInf = NaN"
| "ieee_add mx PosInf b = PosInf"
| "ieee_add mx a PosInf = PosInf"
| "ieee_add mx NegInf b = NegInf"
| "ieee_add mx a NegInf = NegInf"
| "ieee_add mx (Finite a) (Finite b) = overflow mx (a + b)"

fun ieee_neg :: "ieee \<Rightarrow> ieee" where
  "ieee_neg (Finite a) = Finite (- a)"
| "ieee_neg PosInf = NegInf"
| "ieee_neg NegInf = PosInf"
| "ieee_neg NaN = NaN"

definition ieee_sub :: "real \<Rightarrow> ieee \<Rightarrow> ieee \<Rightarrow> ieee" where
  "ieee_sub mx a b = ieee_add mx a (ieee_neg b)"






































section \<open>Lemmas: rows, forward computation, evaluation loop\<close>

lemma rows_Suc: "rows n (Suc k) xs = take n xs # rows n k (drop n xs)"
proof -
  have "[0..<Suc k] = 0 # map Suc [0..<k]"
    by (simp add: upt_conv_Cons map_Suc_upt del: upt_Suc)
  then show ?thesis
    by (simp add: rows_def o_def add.commute del: upt_Suc)
qed

lemma rows_0 [simp]: "rows n 0 xs = []"
  by (simp add: rows_def)

lemma length_rows [simp]: "length (rows n k xs) = k"
  by (simp add: rows_def)

lemma rows_concat:
  "\<forall>r\<in>set rs. length r = n \<Longrightarrow> rows n (length rs) (concat rs) = rs"
  by (induction rs) (simp_all add: rows_Suc)

lemma concat_rows: "length xs = k * n \<Longrightarrow> concat (rows n k xs) = xs"
proof (induction k arbitrary: xs)
  case 0
  then show ?case by simp
next
  case (Suc k)
  then have "length (drop n xs) = k * n" by simp
  then have "concat (rows n k (drop n xs)) = drop n xs" by (rule Suc.IH)
  then show ?case by (simp add: rows_Suc)
qed

lemma length_row: "length xs = k * n \<Longrightarrow> r \<in> set (rows n k xs) \<Longrightarrow> length r = n"
proof -
  assume len: "length xs = k * n" and "r \<in> set (rows n k xs)"
  then obtain i where i: "i < k" and r: "r = take n (drop (i * n) xs)"
    by (auto simp: rows_def)
  from i have "Suc i \<le> k" by simp
  then have "Suc i * n \<le> k * n" by (rule mult_le_mono1)
  then have "n \<le> k * n - i * n" by simp
  with len r show ?thesis by simp
qed

lemma length_affine [simp]: "length (affine W b v) = min (length W) (length b)"
  by (simp add: affine_def)

lemma dot_sum: "length u = n \<Longrightarrow> length v = n \<Longrightarrow> dot u v = (\<Sum>i<n. u ! i * v ! i)"
proof -
  assume u: "length u = n" and v: "length v = n"
  have "dot u v = (\<Sum>i = 0..<length (map2 (*) u v). map2 (*) u v ! i)"
    unfolding dot_def by (rule sum_list_sum_nth)
  also have "\<dots> = (\<Sum>i = 0..<n. u ! i * v ! i)"
    using u v by (intro sum.cong) auto
  finally show ?thesis by (simp add: atLeast0LessThan)
qed

lemma affine_rows_spec:
  assumes "wf_linear n k l" and "length v = n"
  shows "affine (rows n k (data (pdata (weight l)))) (data (pdata (bias l))) v = spec_linear n k l v"
proof (rule nth_equalityI)
  from assms show "length (affine (rows n k (data (pdata (weight l)))) (data (pdata (bias l))) v)
      = length (spec_linear n k l v)"
    by (simp add: wf_linear_def wf_parameter_def spec_linear_def numel_def)
next
  fix j
  assume "j < length (affine (rows n k (data (pdata (weight l)))) (data (pdata (bias l))) v)"
  with assms have j: "j < k"
    by (simp add: wf_linear_def wf_parameter_def numel_def)
  let ?W = "data (pdata (weight l))"
  from assms have lenW: "length ?W = k * n" and lenb: "length (data (pdata (bias l))) = k"
    by (simp_all add: wf_linear_def wf_parameter_def numel_def)
  from j have "Suc j * n \<le> k * n" by (intro mult_le_mono1) simp
  then have room: "j * n + n \<le> k * n" by simp
  have lenrow: "length (take n (drop (j * n) ?W)) = n"
    using lenW room by simp
  have "dot (take n (drop (j * n) ?W)) v = (\<Sum>i<n. take n (drop (j * n) ?W) ! i * v ! i)"
    using lenrow assms(2) by (rule dot_sum)
  also have "\<dots> = (\<Sum>i<n. ?W ! (j * n + i) * v ! i)"
  proof (intro sum.cong refl)
    fix i assume "i \<in> {..<n}"
    then have i: "i < n" by simp
    have "j * n \<le> j * n + n" by simp
    also note room
    finally have "j * n \<le> length ?W" using lenW by simp
    then have "drop (j * n) ?W ! i = ?W ! (j * n + i)" by (simp add: nth_drop)
    with i show "take n (drop (j * n) ?W) ! i * v ! i = ?W ! (j * n + i) * v ! i" by simp
  qed
  finally have "dot (take n (drop (j * n) ?W)) v = (\<Sum>i<n. ?W ! (j * n + i) * v ! i)" .
  with j lenb show "affine (rows n k ?W) (data (pdata (bias l))) v ! j = spec_linear n k l v ! j"
    by (simp add: affine_def spec_linear_def rows_def)
qed

lemma length_spec_linear [simp]: "length (spec_linear n k l v) = k"
  by (simp add: spec_linear_def)

lemma length_spec_relu [simp]: "length (spec_relu v) = length v"
  by (simp add: spec_relu_def)

lemma relu_spec: "map (max 0) = spec_relu"
  by (rule ext) (auto simp: spec_relu_def max_def)

lemma Linear_forward_rows:
  assumes "wf_linear n k l" and "shape x = [B, n]" and "data x = concat rs"
    and "length rs = B" and "\<forall>r\<in>set rs. length r = n"
  shows "Linear_forward l x = Inr \<lparr>shape = [B, k], data = concat (map (spec_linear n k l) rs)\<rparr>"
proof -
  from assms(1) have io: "in_features l = n" "out_features l = k"
    by (simp_all add: wf_linear_def)
  have r: "rows n B (data x) = rs"
    using assms(3,4,5) rows_concat [of rs n] by simp
  have a: "map (affine (rows n k (data (pdata (weight l)))) (data (pdata (bias l)))) rs
      = map (spec_linear n k l) rs"
    using assms(1,5) by (intro map_cong) (simp_all add: affine_rows_spec)
  show ?thesis
    by (simp add: Linear_forward_def numel_def assms(2) io r a)
qed

lemma ReLU_forward_rows:
  "ReLU_forward \<lparr>shape = s, data = concat rs\<rparr> = \<lparr>shape = s, data = concat (map spec_relu rs)\<rparr>"
  by (simp add: ReLU_forward_def map_concat relu_spec [symmetric])

lemma wf_model_stack:
  assumes "wf_model m"
  obtains l1 l2 l3 where "linear_relu_stack m = [Linear l1, ReLU, Linear l2, ReLU, Linear l3]"
    and "wf_linear 784 512 l1" and "wf_linear 512 512 l2" and "wf_linear 512 10 l3"
  using assms unfolding wf_model_def
  by (auto elim!: wf_stack.elims(2))

lemma spec_forward_stack:
  "linear_relu_stack m = [Linear l1, ReLU, Linear l2, ReLU, Linear l3]
    \<Longrightarrow> spec_forward m = spec_network l1 l2 l3"
  by (rule ext) (simp add: spec_forward_def linear_layers_def)

lemma forward_rows:
  assumes wf: "wf_model m" and sh: "shape x = B # d # ds" and n: "numel (d # ds) = 784"
    and len: "length (data x) = B * 784"
  shows "forward m x =
    Inr \<lparr>shape = [B, 10], data = concat (map (spec_forward m) (rows 784 B (data x)))\<rparr>"
proof -
  from wf obtain l1 l2 l3 where
    st: "linear_relu_stack m = [Linear l1, ReLU, Linear l2, ReLU, Linear l3]"
    and w1: "wf_linear 784 512 l1" and w2: "wf_linear 512 512 l2" and w3: "wf_linear 512 10 l3"
    by (rule wf_model_stack)
  define r0 where "r0 = rows 784 B (data x)"
  define r1 where "r1 = map (spec_linear 784 512 l1) r0"
  define r2 where "r2 = map spec_relu r1"
  define r3 where "r3 = map (spec_linear 512 512 l2) r2"
  define r4 where "r4 = map spec_relu r3"
  have fl: "Flatten x = Inr (x\<lparr>shape := [B, 784]\<rparr>)"
    using sh n by (simp add: Flatten_def)
  have cr: "concat r0 = data x" unfolding r0_def using len by (rule concat_rows)
  have l0: "\<forall>r\<in>set r0. length r = 784" unfolding r0_def using len by (auto dest: length_row)
  have s1: "Linear_forward l1 (x\<lparr>shape := [B, 784]\<rparr>) = Inr \<lparr>shape = [B, 512], data = concat r1\<rparr>"
    unfolding r1_def using w1 _ _ _ l0 by (rule Linear_forward_rows) (simp_all add: r0_def concat_rows [OF len])
  have s2: "ReLU_forward \<lparr>shape = [B, 512], data = concat r1\<rparr> = \<lparr>shape = [B, 512], data = concat r2\<rparr>"
    unfolding r2_def by (rule ReLU_forward_rows)
  have s3: "Linear_forward l2 \<lparr>shape = [B, 512], data = concat r2\<rparr> =
      Inr \<lparr>shape = [B, 512], data = concat r3\<rparr>"
    unfolding r3_def using w2 by (rule Linear_forward_rows) (simp_all add: r2_def r1_def r0_def)
  have s4: "ReLU_forward \<lparr>shape = [B, 512], data = concat r3\<rparr> = \<lparr>shape = [B, 512], data = concat r4\<rparr>"
    unfolding r4_def by (rule ReLU_forward_rows)
  have s5: "Linear_forward l3 \<lparr>shape = [B, 512], data = concat r4\<rparr> =
      Inr \<lparr>shape = [B, 10], data = concat (map (spec_linear 512 10 l3) r4)\<rparr>"
    using w3 by (rule Linear_forward_rows) (simp_all add: r4_def r3_def r2_def r1_def r0_def)
  have net: "map (spec_linear 512 10 l3) r4 = map (spec_forward m) r0"
    by (simp add: spec_forward_stack [OF st] spec_network_def r4_def r3_def r2_def r1_def)
  show ?thesis
    unfolding forward_def fl st r0_def [symmetric]
    by (simp add: s1 s2 s3 s4 s5 net)
qed

lemma forward_training [simp]: "forward (m\<lparr>training := b\<rparr>) x = forward m x"
  by (simp add: forward_def split: sum.splits)

lemma collate_Inr:
  assumes "collate c = Inr (X, y)"
  shows "c \<noteq> []" and "y = map snd c" and "shape X = length c # shape (fst (hd c))"
    and "data X = concat (map (\<lambda>s. data (fst s)) c)"
  using assms by (auto simp: collate_def split: list.splits if_splits)

lemma collate_wf:
  assumes "c \<noteq> []" and "list_all wf_sample c"
  shows "collate c = Inr (\<lparr>shape = [length c, 1, 28, 28], data = concat (map (\<lambda>s. data (fst s)) c)\<rparr>,
     map snd c)"
proof -
  from assms obtain s0 c' where c: "c = s0 # c'" by (cases c) auto
  from assms(2) have "list_all (\<lambda>s. shape (fst s) = [1, 28, 28]) c"
    by (simp add: list_all_iff wf_sample_def)
  with c show ?thesis
    by (simp add: collate_def)
qed

lemma ceil_div_ge: "0 < n \<Longrightarrow> (len::nat) \<le> ((len + n - 1) div n) * n"
proof -
  assume n: "0 < n"
  have "len + n - 1 = ((len + n - 1) div n) * n + (len + n - 1) mod n" by simp
  moreover have "(len + n - 1) mod n < n" using n by simp
  ultimately show ?thesis by linarith
qed

lemma ceil_div_pred: "0 < n \<Longrightarrow> 0 < (len::nat) \<Longrightarrow> ((len + n - 1) div n - 1) * n < len"
proof -
  assume n: "0 < n" and l: "0 < len"
  have "((len + n - 1) div n) * n \<le> len + n - 1" by simp
  then have "((len + n - 1) div n) * n - n \<le> len - 1" by arith
  moreover have "((len + n - 1) div n - 1) * n = ((len + n - 1) div n) * n - n"
    by (simp add: diff_mult_distrib)
  ultimately show ?thesis using l by arith
qed

lemma concat_rows_cover: "length xs \<le> k * n \<Longrightarrow> concat (rows n k xs) = xs"
proof (induction k arbitrary: xs)
  case 0
  then show ?case by simp
next
  case (Suc k)
  then have "length (drop n xs) \<le> k * n" by simp
  then have "concat (rows n k (drop n xs)) = drop n xs" by (rule Suc.IH)
  then show ?case by (simp add: rows_Suc)
qed

lemma rows_nonempty:
  assumes "0 < n" and "(k - 1) * n < length xs" and "r \<in> set (rows n k xs)"
  shows "r \<noteq> []"
proof -
  from assms(3) obtain i where i: "i < k" and r: "r = take n (drop (i * n) xs)"
    by (auto simp: rows_def)
  from i have "i \<le> k - 1" by simp
  then have "i * n \<le> (k - 1) * n" by (rule mult_le_mono1)
  then have "i * n < length xs" using assms(2) by (rule le_less_trans)
  with assms(1) r show ?thesis by simp
qed

lemma rows_subset: "r \<in> set (rows n k xs) \<Longrightarrow> set r \<subseteq> set xs"
  by (auto simp: rows_def dest!: in_set_takeD in_set_dropD)

lemma concat_chunks: "0 < batch_size dl \<Longrightarrow> concat (chunks dl) = dataset dl"
  unfolding chunks_def len_DataLoader_def
  by (rule concat_rows_cover) (rule ceil_div_ge)

lemma chunk_nonempty: "0 < batch_size dl \<Longrightarrow> c \<in> set (chunks dl) \<Longrightarrow> c \<noteq> []"
proof -
  assume n: "0 < batch_size dl" and c: "c \<in> set (chunks dl)"
  show "c \<noteq> []"
  proof (cases "dataset dl = []")
    case True
    with n have "len_DataLoader dl = 0" by (simp add: len_DataLoader_def)
    with c show ?thesis by (simp add: chunks_def)
  next
    case False
    with n have "(len_DataLoader dl - 1) * batch_size dl < length (dataset dl)"
      unfolding len_DataLoader_def by (intro ceil_div_pred) simp_all
    with n c show ?thesis unfolding chunks_def by (intro rows_nonempty)
  qed
qed

lemma chunk_subset: "c \<in> set (chunks dl) \<Longrightarrow> set c \<subseteq> set (dataset dl)"
  unfolding chunks_def by (rule rows_subset)

lemma length_chunks [simp]: "length (chunks dl) = len_DataLoader dl"
  by (simp add: chunks_def)

lemma argmax_list_less: "xs \<noteq> [] \<Longrightarrow> argmax_list xs < length xs"
  by (induction xs rule: argmax_list.induct) (auto simp: Let_def)

lemma argmax_list_greatest: "j < length xs \<Longrightarrow> xs ! j \<le> xs ! argmax_list xs"
proof (induction xs arbitrary: j rule: argmax_list.induct)
  case 1
  then show ?case by simp
next
  case (2 a)
  then show ?case by simp
next
  case (3 a b bs)
  show ?case
  proof (cases j)
    case 0
    then show ?thesis by (simp add: Let_def)
  next
    case (Suc j')
    with "3.prems" have "j' < length (b # bs)" by simp
    then have "(b # bs) ! j' \<le> (b # bs) ! argmax_list (b # bs)" by (rule "3.IH")
    with Suc show ?thesis by (auto simp: Let_def)
  qed
qed

lemma length_spec_forward: "wf_model m \<Longrightarrow> length (spec_forward m v) = 10"
  by (erule wf_model_stack) (simp add: spec_forward_stack spec_network_def)

lemma length_concat_const:
  "\<forall>r\<in>set rs. length r = n \<Longrightarrow> length (concat rs) = length rs * n"
  by (induction rs) simp_all

lemma forward_collated:
  assumes wf: "wf_model m" and ws: "list_all wf_sample c"
  shows "forward m \<lparr>shape = [length c, 1, 28, 28], data = concat (map (\<lambda>s. data (fst s)) c)\<rparr> =
    Inr \<lparr>shape = [length c, 10], data = concat (map (\<lambda>s. spec_forward m (data (fst s))) c)\<rparr>"
proof -
  let ?rs = "map (\<lambda>s. data (fst s)) c"
  let ?X = "\<lparr>shape = [length c, 1, 28, 28], data = concat ?rs\<rparr>"
  from ws have lr: "\<forall>r\<in>set ?rs. length r = 784"
    by (auto simp: list_all_iff wf_sample_def)
  then have len: "length (data ?X) = length c * 784"
    using length_concat_const [of ?rs 784] by simp
  have rw: "rows 784 (length c) (data ?X) = ?rs"
    using rows_concat [OF lr] by simp
  have "forward m ?X = Inr \<lparr>shape = [length c, 10],
      data = concat (map (spec_forward m) (rows 784 (length c) (data ?X)))\<rparr>"
    using len by (intro forward_rows [OF wf, of ?X "length c" 1 "[28, 28]"]) (simp_all add: numel_def)
  then show ?thesis
    unfolding rw by (simp add: o_def)
qed

lemma argmax1_scores:
  assumes wf: "wf_model m"
  shows "argmax1 \<lparr>shape = [length c, 10], data = concat (map (\<lambda>s. spec_forward m (data (fst s))) c)\<rparr>
    = Inr (map (\<lambda>s. predicted_class m (fst s)) c)"
proof -
  let ?rs = "map (\<lambda>s. spec_forward m (data (fst s))) c"
  have "\<forall>r\<in>set ?rs. length r = 10" using wf by (auto simp: length_spec_forward)
  then have "rows 10 (length ?rs) (concat ?rs) = ?rs" by (rule rows_concat)
  then show ?thesis
    by (simp add: argmax1_def predicted_class_def o_def)
qed

lemma count_equal_filter:
  "count_equal (map f c) (map g c) = Inr (real (length (filter (\<lambda>s. f s = g s) c)))"
  by (induction c) (simp_all add: count_equal_def)

lemma count_equal_bounds:
  "count_equal p y = Inr n \<Longrightarrow> 0 \<le> n \<and> n \<le> real (length y)"
proof -
  have "0 \<le> sum_list (map2 (\<lambda>a b. if a = b then 1 else (0::real)) p y) \<and>
      sum_list (map2 (\<lambda>a b. if a = b then 1 else (0::real)) p y) \<le> real (length y)" for p y :: "nat list"
  proof (induction p arbitrary: y)
    case Nil
    then show ?case by simp
  next
    case (Cons a p)
    show ?case
    proof (cases y)
      case Nil
      then show ?thesis by simp
    next
      case (Cons b y')
      with Cons.IH [of y'] show ?thesis by auto
    qed
  qed
  moreover assume "count_equal p y = Inr n"
  ultimately show ?thesis by (auto simp: count_equal_def split: if_splits)
qed

lemma test_batch_wf:
  assumes wf: "wf_model (model w)" and ne: "c \<noteq> []" and ws: "list_all wf_sample c"
    and co: "collate c = Inr Xy"
  shows "test_batch loss_fn Xy acc w = (case batch_loss (model w) loss_fn c of
      Inl e \<Rightarrow> Inl e
    | Inr l \<Rightarrow> Inr ((fst acc + l, snd acc + real (length (correct_samples (model w) c))),
        w\<lparr>calls := calls w @ [CallModel (fst Xy), CallLoss (snd Xy)]\<rparr>))"
proof -
  let ?X = "\<lparr>shape = [length c, 1, 28, 28], data = concat (map (\<lambda>s. data (fst s)) c)\<rparr>"
  from co collate_wf [OF ne ws] have Xy: "Xy = (?X, map snd c)" by simp
  note fw = forward_collated [OF wf ws]
  note am = argmax1_scores [OF wf, of c]
  show ?thesis
    unfolding Xy using fw am collate_wf [OF ne ws]
    by (simp add: test_batch_def call_model_def call_loss_def batch_loss_def
        count_equal_filter correct_samples_def split: sum.splits)
qed

lemma test_loop_wf:
  assumes "wf_model (model w)" and "\<forall>c\<in>set cs. c \<noteq> [] \<and> list_all wf_sample c"
    and "test_loop loss_fn cs acc w = Inr (acc', w')"
  shows "\<exists>ls. map (batch_loss (model w) loss_fn) cs = map Inr ls
    \<and> fst acc' = fst acc + sum_list ls
    \<and> snd acc' = snd acc + real (length (correct_samples (model w) (concat cs)))"
  using assms
proof (induction cs arbitrary: acc w)
  case Nil
  then show ?case by (simp add: correct_samples_def)
next
  case (Cons c cs)
  from Cons.prems(2) have ne: "c \<noteq> []" and ws: "list_all wf_sample c" by simp_all
  from collate_wf [OF ne ws] obtain Xy where co: "collate c = Inr Xy" by blast
  note tb = test_batch_wf [OF Cons.prems(1) ne ws co, of loss_fn acc]
  from Cons.prems(3) co tb obtain l where bl: "batch_loss (model w) loss_fn c = Inr l"
    by (cases "batch_loss (model w) loss_fn c") simp_all
  let ?acc1 = "(fst acc + l, snd acc + real (length (correct_samples (model w) c)))"
  let ?w1 = "w\<lparr>calls := calls w @ [CallModel (fst Xy), CallLoss (snd Xy)]\<rparr>"
  from Cons.prems(3) co tb bl have run: "test_loop loss_fn cs ?acc1 ?w1 = Inr (acc', w')"
    by simp
  have "\<exists>ls. map (batch_loss (model ?w1) loss_fn) cs = map Inr ls
      \<and> fst acc' = fst ?acc1 + sum_list ls
      \<and> snd acc' = snd ?acc1 + real (length (correct_samples (model ?w1) (concat cs)))"
    using Cons.prems(1,2) by (intro Cons.IH [OF _ _ run]) simp_all
  then obtain ls where ls: "map (batch_loss (model w) loss_fn) cs = map Inr ls"
    and a: "fst acc' = fst acc + l + sum_list ls"
    and b: "snd acc' = snd acc + real (length (correct_samples (model w) c))
       + real (length (correct_samples (model w) (concat cs)))"
    by auto
  show ?case
  proof (intro exI [of _ "l # ls"] conjI)
    show "map (batch_loss (model w) loss_fn) (c # cs) = map Inr (l # ls)" using bl ls by simp
    show "fst acc' = fst acc + sum_list (l # ls)" using a by simp
    show "snd acc' = snd acc + real (length (correct_samples (model w) (concat (c # cs))))"
      using b by (simp add: correct_samples_def)
  qed
qed

lemma test_batch_trace:
  assumes "test_batch loss_fn Xy acc w = Inr (acc', w')"
    and "linear_relu_stack (model v) = linear_relu_stack (model w)"
  shows "w' = w\<lparr>calls := calls w @ [CallModel (fst Xy), CallLoss (snd Xy)]\<rparr>
    \<and> test_batch loss_fn Xy acc v =
        Inr (acc', v\<lparr>calls := calls v @ [CallModel (fst Xy), CallLoss (snd Xy)]\<rparr>)"
proof -
  have fw: "forward (model v) = forward (model w)"
    unfolding forward_def assms(2) by (rule refl)
  from assms(1) show ?thesis
    by (cases Xy) (auto simp: test_batch_def call_model_def call_loss_def fw split: sum.splits)
qed


lemma test_loop_trace:
  assumes "test_loop loss_fn cs acc w = Inr (acc', w')"
    and "linear_relu_stack (model v) = linear_relu_stack (model w)"
  shows "\<exists>bs. map collate cs = map Inr bs
    \<and> w' = w\<lparr>calls := calls w @ concat (map test_calls bs)\<rparr>
    \<and> test_loop loss_fn cs acc v = Inr (acc', v\<lparr>calls := calls v @ concat (map test_calls bs)\<rparr>)"
  using assms
proof (induction cs arbitrary: acc w v)
  case Nil
  then show ?case by simp
next
  case (Cons c cs)
  from Cons.prems(1) obtain Xy where co: "collate c = Inr Xy"
    by (cases "collate c") simp_all
  from Cons.prems(1) co obtain acc1 w1 where tb: "test_batch loss_fn Xy acc w = Inr (acc1, w1)"
    and run: "test_loop loss_fn cs acc1 w1 = Inr (acc', w')"
    by (cases "test_batch loss_fn Xy acc w") auto
  from test_batch_trace [OF tb Cons.prems(2)]
  have w1: "w1 = w\<lparr>calls := calls w @ test_calls Xy\<rparr>"
    and tbv: "test_batch loss_fn Xy acc v = Inr (acc1, v\<lparr>calls := calls v @ test_calls Xy\<rparr>)"
    by (simp_all add: test_calls_def)
  let ?v1 = "v\<lparr>calls := calls v @ test_calls Xy\<rparr>"
  have "linear_relu_stack (model ?v1) = linear_relu_stack (model w1)"
    using Cons.prems(2) w1 by simp
  from Cons.IH [OF run this] obtain bs where bs: "map collate cs = map Inr bs"
    and w': "w' = w1\<lparr>calls := calls w1 @ concat (map test_calls bs)\<rparr>"
    and v': "test_loop loss_fn cs acc1 ?v1 = Inr (acc', ?v1\<lparr>calls := calls ?v1 @ concat (map test_calls bs)\<rparr>)"
    by blast
  show ?case
  proof (intro exI [of _ "Xy # bs"] conjI)
    show "map collate (c # cs) = map Inr (Xy # bs)" using co bs by simp
    show "w' = w\<lparr>calls := calls w @ concat (map test_calls (Xy # bs))\<rparr>"
      using w' w1 by simp
    show "test_loop loss_fn (c # cs) acc v =
        Inr (acc', v\<lparr>calls := calls v @ concat (map test_calls (Xy # bs))\<rparr>)"
      using co tbv v' by simp
  qed
qed

lemma nll_nonneg:
  assumes "t < length row"
  shows "0 \<le> nll row t"
proof -
  have pos: "\<forall>a\<in>set (map exp row). 0 \<le> (a::real)" by simp
  from assms have "exp (row ! t) \<in> set (map exp row)" by simp
  with pos have "exp (row ! t) \<le> sum_list (map exp row)" by (intro member_le_sum_list) auto
  then have "ln (exp (row ! t)) \<le> ln (sum_list (map exp row))"
    by (intro ln_mono) (auto intro: less_le_trans [OF exp_gt_zero])
  with assms show ?thesis by (simp add: nll_def log_softmax_def)
qed

lemma CrossEntropyLoss_rows:
  assumes "\<forall>r\<in>set rs. length r = c"
  shows "CrossEntropyLoss \<lparr>shape = [length rs, c], data = concat rs\<rparr> y =
    (if length rs \<noteq> length y then Inl ValueError
     else if \<not> list_all (\<lambda>t. t < c) y then Inl IndexError
     else if length rs = 0 then Inl NotANumber
     else Inr (sum_list (map2 nll rs y) / real (length rs)))"
proof -
  have r: "rows c n (concat rs) = rs" if "n = length rs" for n
    using that rows_concat [OF assms] by simp
  show ?thesis by (simp add: CrossEntropyLoss_def r)
qed

lemma sum_nll_nonneg:
  assumes "\<forall>r\<in>set rs. length r = c" and "list_all (\<lambda>t. t < c) y"
  shows "0 \<le> sum_list (map2 nll rs y)"
proof (rule sum_list_nonneg)
  fix x assume "x \<in> set (map2 nll rs y)"
  then obtain r t where "(r, t) \<in> set (zip rs y)" and x: "x = nll r t" by auto
  then have "r \<in> set rs" and "t \<in> set y" by (auto dest: set_zip_leftD set_zip_rightD)
  with assms have "t < length r" by (auto simp: list_all_iff)
  with x show "0 \<le> x" by (simp add: nll_nonneg)
qed

lemma CrossEntropyLoss_nonneg:
  assumes "\<forall>r\<in>set rs. length r = c"
    and "CrossEntropyLoss \<lparr>shape = [length rs, c], data = concat rs\<rparr> y = Inr l"
  shows "0 \<le> l"
  using assms(2) sum_nll_nonneg [OF assms(1), of y]
  unfolding CrossEntropyLoss_rows [OF assms(1)]
  by (auto split: if_splits)

lemma batch_loss_wf:
  assumes wf: "wf_model m" and ne: "c \<noteq> []" and ws: "list_all wf_sample c"
  shows "batch_loss m loss_fn c =
    loss_fn \<lparr>shape = [length c, 10], data = concat (map (\<lambda>s. spec_forward m (data (fst s))) c)\<rparr>
      (map snd c)"
  using forward_collated [OF wf ws] collate_wf [OF ne ws]
  by (simp add: batch_loss_def)

lemma batch_loss_CrossEntropyLoss_nonneg:
  assumes wf: "wf_model m" and ne: "c \<noteq> []" and ws: "list_all wf_sample c"
    and bl: "batch_loss m CrossEntropyLoss c = Inr l"
  shows "0 \<le> l"
proof -
  let ?rs = "map (\<lambda>s. spec_forward m (data (fst s))) c"
  have lr: "\<forall>r\<in>set ?rs. length r = 10" using wf by (auto simp: length_spec_forward)
  from bl have "CrossEntropyLoss \<lparr>shape = [length ?rs, 10], data = concat ?rs\<rparr> (map snd c) = Inr l"
    by (simp add: batch_loss_wf [OF wf ne ws])
  with lr show ?thesis by (rule CrossEntropyLoss_nonneg)
qed

lemma batch_loss_CrossEntropyLoss_total:
  assumes wf: "wf_model m" and ne: "c \<noteq> []" and ws: "list_all wf_sample c"
    and lb: "list_all (\<lambda>s. snd s < 10) c"
  shows "\<exists>l. batch_loss m CrossEntropyLoss c = Inr l"
proof -
  let ?rs = "map (\<lambda>s. spec_forward m (data (fst s))) c"
  have lr: "\<forall>r\<in>set ?rs. length r = 10" using wf by (auto simp: length_spec_forward)
  have "list_all (\<lambda>t. t < 10) (map snd c)" using lb by (simp add: list_all_iff)
  with ne CrossEntropyLoss_rows [OF lr, of "map snd c"] show ?thesis
    by (simp add: batch_loss_wf [OF wf ne ws])
qed

lemma test_loop_total:
  assumes "wf_model (model w)" and "\<forall>c\<in>set cs. c \<noteq> [] \<and> list_all wf_sample c"
    and "\<forall>c\<in>set cs. \<exists>l. batch_loss (model w) loss_fn c = Inr l"
  shows "\<exists>r. test_loop loss_fn cs acc w = Inr r"
  using assms
proof (induction cs arbitrary: acc w)
  case Nil
  then show ?case by simp
next
  case (Cons c cs)
  from Cons.prems(2) have ne: "c \<noteq> []" and ws: "list_all wf_sample c" by simp_all
  from collate_wf [OF ne ws] obtain Xy where co: "collate c = Inr Xy" by blast
  from Cons.prems(3) obtain l where bl: "batch_loss (model w) loss_fn c = Inr l" by auto
  let ?acc1 = "(fst acc + l, snd acc + real (length (correct_samples (model w) c)))"
  let ?w1 = "w\<lparr>calls := calls w @ [CallModel (fst Xy), CallLoss (snd Xy)]\<rparr>"
  have tb: "test_batch loss_fn Xy acc w = Inr (?acc1, ?w1)"
    using test_batch_wf [OF Cons.prems(1) ne ws co, of loss_fn acc] bl by simp
  have "\<exists>r. test_loop loss_fn cs ?acc1 ?w1 = Inr r"
    using Cons.prems by (intro Cons.IH) simp_all
  with co tb show ?case by simp
qed

lemma wf_model_training [simp]: "wf_model (m\<lparr>training := b\<rparr>) = wf_model m"
  by (simp add: wf_model_def)

lemma spec_forward_training [simp]: "spec_forward (m\<lparr>training := b\<rparr>) = spec_forward m"
  by (rule ext) (simp add: spec_forward_def linear_layers_def)

lemma correct_samples_training [simp]:
  "correct_samples (m\<lparr>training := b\<rparr>) = correct_samples m"
  by (rule ext) (simp add: correct_samples_def predicted_class_def)

lemma batch_loss_training [simp]: "batch_loss (m\<lparr>training := b\<rparr>) = batch_loss m"
  by (intro ext) (simp add: batch_loss_def split: sum.splits prod.splits)

lemma len_DataLoader_pos: "len_DataLoader dl \<noteq> 0 \<Longrightarrow> 0 < batch_size dl"
  by (cases "batch_size dl") (simp_all add: len_DataLoader_def)

lemma test_Inr:
  assumes "test dl loss_fn w = Inr w'"
  obtains test_loss correct w1 where
    "test_loop loss_fn (chunks dl) (0, 0) (w\<lparr>model := (model w)\<lparr>training := False\<rparr>\<rparr>)
       = Inr ((test_loss, correct), w1)"
    and "w' = print_line (TestError (100 * (correct / real (length (dataset dl))))
       (test_loss / real (len_DataLoader dl))) w1"
    and "0 < batch_size dl" and "dataset dl \<noteq> []"
  using assms
  by (auto simp: test_def Let_def len_DataLoader_pos split: sum.splits prod.splits if_splits)

lemma chunks_wf:
  assumes "0 < batch_size dl" and "list_all wf_sample (dataset dl)"
  shows "\<forall>c\<in>set (chunks dl). c \<noteq> [] \<and> list_all wf_sample c"
  using assms chunk_nonempty [of dl] chunk_subset [of _ dl]
  by (auto simp: list_all_iff)

lemma test_result:
  assumes wf: "wf_model (model w)" and ws: "list_all wf_sample (dataset dl)"
    and run: "test dl loss_fn w = Inr w'"
  shows "\<exists>ls. map (batch_loss (model w) loss_fn) (chunks dl) = map Inr ls
    \<and> stdout w' = stdout w @
       [TestError (100 * (real (length (correct_samples (model w) (dataset dl)))
                    / real (length (dataset dl))))
          (sum_list ls / real (len_DataLoader dl))]"
proof -
  let ?w0 = "w\<lparr>model := (model w)\<lparr>training := False\<rparr>\<rparr>"
  from run obtain test_loss correct w1 where
    lp: "test_loop loss_fn (chunks dl) (0, 0) ?w0 = Inr ((test_loss, correct), w1)"
    and w': "w' = print_line (TestError (100 * (correct / real (length (dataset dl))))
       (test_loss / real (len_DataLoader dl))) w1"
    and bs: "0 < batch_size dl"
    by (rule test_Inr)
  have wf0: "wf_model (model ?w0)" using wf by simp
  from test_loop_wf [OF wf0 chunks_wf [OF bs ws] lp]
  obtain ls where ls: "map (batch_loss (model w) loss_fn) (chunks dl) = map Inr ls"
    and tl: "test_loss = sum_list ls"
    and c: "correct = real (length (correct_samples (model w) (dataset dl)))"
    by (auto simp: concat_chunks [OF bs])
  from test_loop_trace [OF lp refl] have "stdout w1 = stdout w" by auto
  with w' tl c have "stdout w' = stdout w @
       [TestError (100 * (real (length (correct_samples (model w) (dataset dl)))
                    / real (length (dataset dl))))
          (sum_list ls / real (len_DataLoader dl))]"
    by (simp add: print_line_def)
  with ls show ?thesis by blast
qed

lemma test_total:
  assumes wf: "wf_model (model w)" and ws: "list_all wf_sample (dataset dl)"
    and lb: "list_all (\<lambda>s. snd s < 10) (dataset dl)"
    and bs: "0 < batch_size dl" and ne: "dataset dl \<noteq> []"
  shows "\<exists>w'. test dl CrossEntropyLoss w = Inr w'"
proof -
  let ?w0 = "w\<lparr>model := (model w)\<lparr>training := False\<rparr>\<rparr>"
  have wf0: "wf_model (model ?w0)" using wf by simp
  note cw = chunks_wf [OF bs ws]
  have "\<forall>c\<in>set (chunks dl). \<exists>l. batch_loss (model ?w0) CrossEntropyLoss c = Inr l"
  proof
    fix c assume c: "c \<in> set (chunks dl)"
    with cw have "c \<noteq> []" and "list_all wf_sample c" by simp_all
    moreover from c lb chunk_subset [of c dl] have "list_all (\<lambda>s. snd s < 10) c"
      by (auto simp: list_all_iff)
    ultimately show "\<exists>l. batch_loss (model ?w0) CrossEntropyLoss c = Inr l"
      using wf0 by (intro batch_loss_CrossEntropyLoss_total)
  qed
  with wf0 cw obtain r where "test_loop CrossEntropyLoss (chunks dl) (0, 0) ?w0 = Inr r"
    using test_loop_total by blast
  moreover have "len_DataLoader dl \<noteq> 0"
  proof
    assume "len_DataLoader dl = 0"
    then have "chunks dl = []" by (simp add: chunks_def)
    with concat_chunks [OF bs] ne show False by simp
  qed
  ultimately show ?thesis using ne
    by (cases r) (auto simp: test_def Let_def split: prod.splits)
qed

section \<open>Lemmas: the example inputs\<close>

lemma wf_nn_Linear: "wf_linear i k (nn_Linear i k rng off)"
  by (simp add: nn_Linear_def wf_linear_def wf_parameter_def numel_def)

lemma wf_model_init: "wf_model (NeuralNetwork_init rng)"
  by (simp add: wf_model_def NeuralNetwork_init_def wf_nn_Linear)

lemma wf_zero_world: "wf_model (model zero_world)"
  by (simp add: zero_world_def zero_model_def wf_model_init)

lemma wf_two_samples: "list_all wf_sample (dataset two_samples)"
  by (simp add: two_samples_def wf_sample_def zero_image_def)

lemma labels_two_samples: "list_all (\<lambda>s. snd s < 10) (dataset two_samples)"
  by (simp add: two_samples_def)

lemma test_two_samples: "\<exists>w'. test two_samples CrossEntropyLoss zero_world = Inr w'"
  by (rule test_total [OF wf_zero_world wf_two_samples labels_two_samples])
    (simp_all add: two_samples_def)

section \<open>Lemmas: the index of the maximum, the example network\<close>

lemma argmax_list_first: "j < argmax_list xs \<Longrightarrow> xs ! j < xs ! argmax_list xs"
proof (induction xs arbitrary: j rule: argmax_list.induct)
  case 1
  then show ?case by simp
next
  case (2 a)
  then show ?case by simp
next
  case (3 a b bs)
  let ?k = "argmax_list (b # bs)"
  show ?case
  proof (cases "(b # bs) ! ?k > a")
    case True
    then have res: "argmax_list (a # b # bs) = Suc ?k" by (simp add: Let_def)
    show ?thesis
    proof (cases j)
      case 0
      with True res show ?thesis by simp
    next
      case (Suc j')
      with "3.prems" res have "j' < ?k" by simp
      then have "(b # bs) ! j' < (b # bs) ! ?k" by (rule "3.IH")
      with Suc res show ?thesis by simp
    qed
  next
    case False
    then have "argmax_list (a # b # bs) = 0" by (simp add: Let_def)
    with "3.prems" show ?thesis by simp
  qed
qed

lemma index_of_maximum_argmax_list:
  assumes "xs \<noteq> []"
  shows "index_of_maximum k xs \<longleftrightarrow> argmax_list xs = k"
proof
  assume "argmax_list xs = k"
  with assms argmax_list_less [of xs] argmax_list_greatest [of _ xs] argmax_list_first [of _ xs]
  show "index_of_maximum k xs"
    by (auto simp: index_of_maximum_def list_all_iff)
next
  assume k: "index_of_maximum k xs"
  let ?a = "argmax_list xs"
  from assms have a: "?a < length xs" by (rule argmax_list_less)
  from k have kl: "k < length xs" and kg: "\<forall>j<length xs. xs ! j \<le> xs ! k"
    and kf: "\<forall>j<k. xs ! j < xs ! k"
    by (auto simp: index_of_maximum_def list_all_iff)
  show "?a = k"
  proof (rule ccontr)
    assume "?a \<noteq> k"
    then consider "?a < k" | "k < ?a" by linarith
    then show False
    proof cases
      case 1
      with kf have "xs ! ?a < xs ! k" by simp
      moreover from kl have "xs ! k \<le> xs ! ?a" by (rule argmax_list_greatest)
      ultimately show False by simp
    next
      case 2
      then have "xs ! k < xs ! ?a" by (rule argmax_list_first)
      moreover from kg a have "xs ! ?a \<le> xs ! k" by simp
      ultimately show False by simp
    qed
  qed
qed

lemma correct_samples_classified:
  assumes "wf_model m"
  shows "correct_samples m ss = filter (classified_correctly m) ss"
proof -
  have "(predicted_class m (fst s) = snd s) = classified_correctly m s" for s
  proof -
    have "length (spec_forward m (data (fst s))) = 10" using assms by (rule length_spec_forward)
    then have "spec_forward m (data (fst s)) \<noteq> []" by auto
    then show ?thesis
      by (simp add: classified_correctly_def predicted_class_def index_of_maximum_argmax_list)
  qed
  then show ?thesis by (simp add: correct_samples_def)
qed

lemma batch_loss_scores:
  assumes "wf_model m" and "c \<noteq> []" and "list_all wf_sample c"
  shows "batch_loss m loss_fn c = loss_fn (batch_scores m c) (map snd c)"
  using batch_loss_wf [OF assms] by (simp add: batch_scores_def)

lemma spec_linear_nn_Linear:
  "spec_linear n k (nn_Linear n k rng off) v =
     map (\<lambda>j. (\<Sum>i<n. rng (off + (j * n + i)) * v ! i) + rng (off + k * n + j)) [0..<k]"
proof -
  have "(\<Sum>i<n. map rng [off..<off + k * n] ! (j * n + i) * v ! i)
      = (\<Sum>i<n. rng (off + (j * n + i)) * v ! i)" if "j < k" for j
  proof (intro sum.cong refl)
    fix i assume "i \<in> {..<n}"
    then have i: "i < n" by simp
    from that have "Suc j * n \<le> k * n" by (intro mult_le_mono1) simp
    with i have "j * n + i < k * n" by simp
    then show "map rng [off..<off + k * n] ! (j * n + i) * v ! i = rng (off + (j * n + i)) * v ! i"
      by simp
  qed
  then show ?thesis
    by (simp add: spec_linear_def nn_Linear_def)
qed

lemma spec_linear_point:
  assumes w: "\<And>j i. j < k \<Longrightarrow> i < n \<Longrightarrow> rng (off + (j * n + i)) = (if j = j0 \<and> i = i0 then c else 0)"
    and b: "\<And>j. j < k \<Longrightarrow> rng (off + k * n + j) = b j"
    and i0: "i0 < n"
  shows "spec_linear n k (nn_Linear n k rng off) v =
    map (\<lambda>j. (if j = j0 then c * v ! i0 else 0) + b j) [0..<k]"
proof -
  have "(\<Sum>i<n. rng (off + (j * n + i)) * v ! i) = (if j = j0 then c * v ! i0 else 0)"
    if j: "j < k" for j
  proof -
    have "(\<Sum>i<n. rng (off + (j * n + i)) * v ! i)
        = (\<Sum>i\<in>{..<n}. if i = i0 then (if j = j0 then c * v ! i0 else 0) else 0)"
      using j by (intro sum.cong refl) (simp add: w)
    also have "\<dots> = (if j = j0 then c * v ! i0 else 0)"
      using i0 by (simp add: sum.delta)
    finally show ?thesis .
  qed
  then show ?thesis
    unfolding spec_linear_nn_Linear using b by simp
qed

lemma pixel_rng_eq:
  "pixel_rng p = (if p = 0 then 1 else if p = 401920 then 1 else if p = 665088 then 1
     else if p = 669696 then 1 / 2 else 0)"
  by (simp add: pixel_rng_def point_rng_def)

lemma pixel_layer1:
  "spec_linear 784 512 (nn_Linear 784 512 pixel_rng 0) v =
     map (\<lambda>j. if j = 0 then v ! 0 else 0) [0..<512]"
proof -
  have "spec_linear 784 512 (nn_Linear 784 512 pixel_rng 0) v =
      map (\<lambda>j. (if j = 0 then 1 * v ! 0 else 0) + 0) [0..<512]"
  proof (rule spec_linear_point)
    fix j i :: nat assume "j < 512" and "i < 784"
    then show "pixel_rng (0 + (j * 784 + i)) = (if j = 0 \<and> i = 0 then 1 else 0)"
      unfolding pixel_rng_eq by auto
  next
    fix j :: nat assume "j < 512"
    then show "pixel_rng (0 + 512 * 784 + j) = 0"
      unfolding pixel_rng_eq by auto
  qed simp
  then show ?thesis by simp
qed

lemma pixel_layer2:
  "spec_linear 512 512 (nn_Linear 512 512 pixel_rng 401920) h =
     map (\<lambda>j. if j = 0 then h ! 0 else 0) [0..<512]"
proof -
  have "spec_linear 512 512 (nn_Linear 512 512 pixel_rng 401920) h =
      map (\<lambda>j. (if j = 0 then 1 * h ! 0 else 0) + 0) [0..<512]"
  proof (rule spec_linear_point)
    fix j i :: nat assume "j < 512" and "i < 512"
    then show "pixel_rng (401920 + (j * 512 + i)) = (if j = 0 \<and> i = 0 then 1 else 0)"
      unfolding pixel_rng_eq by auto
  next
    fix j :: nat assume "j < 512"
    then show "pixel_rng (401920 + 512 * 512 + j) = 0"
      unfolding pixel_rng_eq by auto
  qed simp
  then show ?thesis by simp
qed

lemma pixel_layer3:
  "spec_linear 512 10 (nn_Linear 512 10 pixel_rng 664576) h =
     map (\<lambda>j. (if j = 1 then h ! 0 else 0) + (if j = 0 then 1 / 2 else 0)) [0..<10]"
proof -
  have "spec_linear 512 10 (nn_Linear 512 10 pixel_rng 664576) h =
      map (\<lambda>j. (if j = 1 then 1 * h ! 0 else 0) + (if j = 0 then 1 / 2 else 0)) [0..<10]"
  proof (rule spec_linear_point)
    fix j i :: nat assume j: "j < 10" and i: "i < 512"
    have e1: "(j * 512 + i = 512) = (j = 1 \<and> i = 0)"
    proof (cases "j \<le> 1")
      case True
      then consider "j = 0" | "j = 1" by linarith
      then show ?thesis using i by cases simp_all
    next
      case False
      then have "2 * 512 \<le> j * 512" by (intro mult_le_mono1) simp
      with False show ?thesis by simp
    qed
    from j have "j * 512 \<le> 9 * 512" by (intro mult_le_mono1) simp
    with i have e2: "j * 512 + i \<noteq> 5120" by simp
    have e3: "664576 + (j * 512 + i) = 665088 \<longleftrightarrow> j * 512 + i = 512" by linarith
    have e4: "664576 + (j * 512 + i) = 669696 \<longleftrightarrow> j * 512 + i = 5120" by linarith
    have e5: "664576 + (j * 512 + i) \<noteq> 0" "664576 + (j * 512 + i) \<noteq> 401920" by linarith+
    from e1 e2 e3 e4 e5 show "pixel_rng (664576 + (j * 512 + i)) = (if j = 1 \<and> i = 0 then 1 else 0)"
      unfolding pixel_rng_eq by simp
  next
    fix j :: nat assume "j < 10"
    then show "pixel_rng (664576 + 10 * 512 + j) = (if j = 0 then 1 / 2 else 0)"
      unfolding pixel_rng_eq by auto
  qed simp
  then show ?thesis by simp
qed

lemma upt_10: "[0..<10] = [0, 1, 2, 3, 4, 5, 6, 7, 8, 9]"
  by (simp add: upt_conv_Cons)

lemma spec_forward_pixel_model:
  "spec_forward pixel_model v = [1 / 2, (if v ! 0 < 0 then 0 else v ! 0), 0, 0, 0, 0, 0, 0, 0, 0]"
proof -
  have st: "linear_relu_stack pixel_model =
      [Linear (nn_Linear 784 512 pixel_rng 0), ReLU,
       Linear (nn_Linear 512 512 pixel_rng 401920), ReLU,
       Linear (nn_Linear 512 10 pixel_rng 664576)]"
    by (simp add: pixel_model_def NeuralNetwork_init_def)
  let ?a = "if v ! 0 < 0 then 0 else v ! 0"
  have h1: "spec_relu (spec_linear 784 512 (nn_Linear 784 512 pixel_rng 0) v) =
      map (\<lambda>j. if j = 0 then ?a else 0) [0..<512]"
    unfolding pixel_layer1 by (simp add: spec_relu_def)
  have a0: "map (\<lambda>j. if j = 0 then ?a else (0::real)) [0..<512] ! 0 = ?a"
    by (simp del: upt_rec_numeral)
  have h2: "spec_relu (spec_linear 512 512 (nn_Linear 512 512 pixel_rng 401920)
        (map (\<lambda>j. if j = 0 then ?a else 0) [0..<512])) =
      map (\<lambda>j. if j = 0 then ?a else 0) [0..<512]"
    unfolding pixel_layer2 a0 by (simp add: spec_relu_def)
  show ?thesis
    unfolding spec_forward_stack [OF st] spec_network_def h1 h2 pixel_layer3 a0 upt_10
    by simp
qed

lemma wf_pixel_world: "wf_model (model pixel_world)"
  by (simp add: pixel_world_def pixel_model_def wf_model_init)

lemma wf_three_samples: "list_all wf_sample (dataset three_samples)"
  by (simp add: three_samples_def wf_sample_def zero_image_def bright_image_def)

lemma labels_three_samples: "list_all (\<lambda>s. snd s < 10) (dataset three_samples)"
  by (simp add: three_samples_def)

lemma test_three_samples: "\<exists>w'. test three_samples CrossEntropyLoss pixel_world = Inr w'"
  by (rule test_total [OF wf_pixel_world wf_three_samples labels_three_samples])
    (simp_all add: three_samples_def)

lemma chunks_three_samples:
  "chunks three_samples = [[(bright_image, 1), (zero_image, 0)], [(bright_image, 0)]]"
  by (simp add: chunks_def len_DataLoader_def rows_def three_samples_def upt_conv_Cons)

lemma scores_bright_image:
  "spec_forward pixel_model (data bright_image) = [1 / 2, 1, 0, 0, 0, 0, 0, 0, 0, 0]"
  by (simp add: spec_forward_pixel_model bright_image_def)

lemma scores_zero_image:
  "spec_forward pixel_model (data zero_image) = [1 / 2, 0, 0, 0, 0, 0, 0, 0, 0, 0]"
  by (simp add: spec_forward_pixel_model zero_image_def)

lemma classified_three_samples:
  "filter (classified_correctly pixel_model) (dataset three_samples)
     = [(bright_image, 1), (zero_image, 0)]"
  by (simp add: three_samples_def classified_correctly_def scores_bright_image scores_zero_image
      index_of_maximum_def upt_10 upt_conv_Cons)

section \<open>Lemmas: classifying one sample\<close>

lemma forward_sample:
  assumes wf: "wf_model m" and ws: "wf_sample (x, y)"
  shows "forward m x = Inr \<lparr>shape = [1, 10], data = spec_forward m (data x)\<rparr>"
proof -
  from ws have sh: "shape x = [1, 28, 28]" and len: "length (data x) = 1 * 784"
    by (simp_all add: wf_sample_def)
  have "forward m x = Inr \<lparr>shape = [1, 10], data = concat (map (spec_forward m) (rows 784 1 (data x)))\<rparr>"
    using wf sh _ len by (rule forward_rows) (simp add: numel_def)
  moreover have "rows 784 1 (data x) = [data x]"
    using len by (simp add: rows_def)
  ultimately show ?thesis by simp
qed

lemma predict_wf:
  assumes wf: "wf_model (model w)" and gi: "getitem test_data 1 = Inr (x, y)"
    and ws: "wf_sample (x, y)" and lb: "y < 10"
  shows "predict test_data w =
    Inr (print_line (Prediction (classes ! predicted_class (model w) x) (classes ! y))
      (w\<lparr>model := (model w)\<lparr>training := False\<rparr>, calls := calls w @ [CallModel x]\<rparr>))"
proof -
  let ?m = "(model w)\<lparr>training := False\<rparr>"
  let ?row = "spec_forward (model w) (data x)"
  have wf0: "wf_model ?m" using wf by simp
  have fw: "forward ?m x = Inr \<lparr>shape = [1, 10], data = ?row\<rparr>"
    using forward_sample [OF wf0 ws] by simp
  have lrow: "length ?row = 10" using wf by (rule length_spec_forward)
  have sel: "select0 \<lparr>shape = [1, 10], data = ?row\<rparr> 0 = Inr \<lparr>shape = [10], data = ?row\<rparr>"
    using lrow by (simp add: select0_def numel_def)
  have am: "argmax0 \<lparr>shape = [10], data = ?row\<rparr> = Inr (predicted_class (model w) x)"
    by (simp add: argmax0_def predicted_class_def)
  from lrow have "?row \<noteq> []" by auto
  then have "argmax_list ?row < length ?row" by (rule argmax_list_less)
  with lrow have k: "predicted_class (model w) x < 10" by (simp add: predicted_class_def)
  have g1: "getitem classes (predicted_class (model w) x) = Inr (classes ! predicted_class (model w) x)"
    using k by (simp add: getitem_def classes_def)
  have g2: "getitem classes y = Inr (classes ! y)"
    using lb by (simp add: getitem_def classes_def)
  show ?thesis
    using fw sel am gi g1 g2
    by (simp add: predict_def Let_def call_model_def)
qed


lemma getitem_three_samples: "getitem (dataset three_samples) 1 = Inr (zero_image, 0)"
  by (simp add: getitem_def three_samples_def)

lemma wf_zero_image: "wf_sample (zero_image, y)"
  by (simp add: wf_sample_def zero_image_def)

section \<open>Lemmas: float32 arithmetic and the float32 evaluation loop\<close>








lemma ieee_add_NaN_right [simp]: "ieee_add mx a NaN = NaN"
  by (cases a) simp_all


lemma ieee_sub_NaN_right [simp]: "ieee_sub mx a NaN = NaN"
  by (simp add: ieee_sub_def)

lemma ieee_sub_NaN_left [simp]: "ieee_sub mx NaN b = NaN"
  by (simp add: ieee_sub_def)


























































section \<open>The forward computation and the evaluation loop\<close>

text \<open>
  C1. For a model of the notebook's topology and a batch of shape \<open>(B, 1, 28, 28)\<close>, the
  forward computation returns a tensor of shape \<open>(B, 10)\<close> whose \<open>i\<close>-th row is the network
  of the specification (linear 784 \<rightarrow> 512, rectifier, linear 512 \<rightarrow> 512, rectifier, linear
  512 \<rightarrow> 10, nothing after the last layer) applied to the \<open>i\<close>-th flattened sample, for
  every batch size \<open>B\<close>.
\<close>

theorem forward_is_three_layer_network:
  assumes "wf_model m" and "shape x = [B, 1, 28, 28]" and "wf_tensor x"
  shows "\<exists>out. forward m x = Inr out \<and> shape out = [B, 10] \<and> wf_tensor out
    \<and> rows 10 B (data out) = map (spec_forward m) (rows 784 B (data x))"
proof -
  from assms(2,3) have len: "length (data x) = B * 784"
    by (simp add: wf_tensor_def numel_def)
  let ?rs = "map (spec_forward m) (rows 784 B (data x))"
  have fw: "forward m x = Inr \<lparr>shape = [B, 10], data = concat ?rs\<rparr>"
    using assms(1,2) _ len by (rule forward_rows) (simp add: numel_def)
  have lr: "\<forall>r\<in>set ?rs. length r = 10"
    using assms(1) by (auto simp: length_spec_forward)
  have "rows 10 (length ?rs) (concat ?rs) = ?rs" using lr by (rule rows_concat)
  moreover have "length (concat ?rs) = length ?rs * 10" using lr by (rule length_concat_const)
  ultimately show ?thesis
    using fw by (simp add: wf_tensor_def numel_def)
qed

theorem forward_is_three_layer_network_witness:
  "wf_model zero_model \<and> shape \<lparr>shape = [2, 1, 28, 28], data = replicate 1568 0\<rparr> = [2, 1, 28, 28]
   \<and> wf_tensor \<lparr>shape = [2, 1, 28, 28], data = replicate 1568 0\<rparr>
   \<and> (\<exists>out. forward zero_model \<lparr>shape = [2, 1, 28, 28], data = replicate 1568 0\<rparr> = Inr out
        \<and> shape out = [2, 10] \<and> wf_tensor out
        \<and> rows 10 2 (data out) =
           map (spec_forward zero_model) (rows 784 2 (replicate 1568 0)))"
proof -
  have wf: "wf_model zero_model" by (simp add: zero_model_def wf_model_init)
  have sh: "shape \<lparr>shape = [2, 1, 28, 28], data = replicate 1568 0\<rparr> = [2, 1, 28, 28]" by simp
  have wt: "wf_tensor \<lparr>shape = [2, 1, 28, 28], data = replicate 1568 0\<rparr>"
    by (simp add: wf_tensor_def numel_def)
  from forward_is_three_layer_network [OF wf sh wt] wf wt show ?thesis by simp
qed

text \<open>
  C3. After one pass of the evaluation loop the reported average loss is the sum of the
  loss values of the batches divided by the number of batches, and the reported accuracy
  (printed as a percentage) is the number of samples of the test split whose label is the
  index of the maximum of their scores, divided by the number of samples.
\<close>

theorem test_reports_average_loss_and_accuracy:
  assumes "wf_model (model w)" and "list_all wf_sample (dataset dl)"
    and "test dl loss_fn w = Inr w'"
  shows "\<exists>losses.
      map (\<lambda>c. loss_fn (batch_scores (model w) c) (map snd c)) (chunks dl) = map Inr losses
    \<and> length losses = len_DataLoader dl
    \<and> stdout w' = stdout w @
       [TestError (100 * (real (length (filter (classified_correctly (model w)) (dataset dl)))
                    / real (length (dataset dl))))
          (sum_list losses / real (len_DataLoader dl))]"
proof -
  from test_result [OF assms] obtain ls where
    ls: "map (batch_loss (model w) loss_fn) (chunks dl) = map Inr ls"
    and out: "stdout w' = stdout w @
       [TestError (100 * (real (length (correct_samples (model w) (dataset dl)))
                    / real (length (dataset dl))))
          (sum_list ls / real (len_DataLoader dl))]"
    by blast
  from assms(3) have bs: "0 < batch_size dl" by (rule test_Inr)
  have "map (\<lambda>c. loss_fn (batch_scores (model w) c) (map snd c)) (chunks dl)
      = map (batch_loss (model w) loss_fn) (chunks dl)"
  proof (rule map_cong [OF refl])
    fix c assume "c \<in> set (chunks dl)"
    with chunks_wf [OF bs assms(2)] have "c \<noteq> []" and "list_all wf_sample c" by simp_all
    with assms(1) show "loss_fn (batch_scores (model w) c) (map snd c) = batch_loss (model w) loss_fn c"
      by (simp add: batch_loss_scores)
  qed
  with ls have l1: "map (\<lambda>c. loss_fn (batch_scores (model w) c) (map snd c)) (chunks dl) = map Inr ls"
    by simp
  from ls have "length (chunks dl) = length ls" by (rule map_eq_imp_length_eq)
  then have l2: "length ls = len_DataLoader dl" by simp
  from out have l3: "stdout w' = stdout w @
       [TestError (100 * (real (length (filter (classified_correctly (model w)) (dataset dl)))
                    / real (length (dataset dl))))
          (sum_list ls / real (len_DataLoader dl))]"
    by (simp add: correct_samples_classified [OF assms(1)])
  from l1 l2 l3 show ?thesis by blast
qed

theorem test_reports_average_loss_and_accuracy_witness:
  "wf_model (model pixel_world) \<and> list_all wf_sample (dataset three_samples)
   \<and> chunks three_samples = [[(bright_image, 1), (zero_image, 0)], [(bright_image, 0)]]
   \<and> spec_forward pixel_model (data bright_image) = [1 / 2, 1, 0, 0, 0, 0, 0, 0, 0, 0]
   \<and> spec_forward pixel_model (data zero_image) = [1 / 2, 0, 0, 0, 0, 0, 0, 0, 0, 0]
   \<and> (\<exists>w' l1 l2. test three_samples CrossEntropyLoss pixel_world = Inr w'
      \<and> CrossEntropyLoss (batch_scores pixel_model [(bright_image, 1), (zero_image, 0)]) [1, 0]
          = Inr l1
      \<and> CrossEntropyLoss (batch_scores pixel_model [(bright_image, 0)]) [0] = Inr l2
      \<and> stdout w' = [TestError (100 * (2 / 3)) ((l1 + l2) / 2)])"
proof -
  from test_three_samples obtain w' where
    run: "test three_samples CrossEntropyLoss pixel_world = Inr w'"
    by blast
  from test_reports_average_loss_and_accuracy [OF wf_pixel_world wf_three_samples run]
  obtain losses where
    ls: "map (\<lambda>c. CrossEntropyLoss (batch_scores (model pixel_world) c) (map snd c))
          (chunks three_samples) = map Inr losses"
    and out: "stdout w' = stdout pixel_world @
       [TestError (100 * (real (length (filter (classified_correctly (model pixel_world))
                      (dataset three_samples)))
                    / real (length (dataset three_samples))))
          (sum_list losses / real (len_DataLoader three_samples))]"
    by blast
  have m: "model pixel_world = pixel_model" by (simp add: pixel_world_def)
  from ls obtain l1 l2 where losses: "losses = [l1, l2]"
    and l1: "CrossEntropyLoss (batch_scores pixel_model [(bright_image, 1), (zero_image, 0)]) [1, 0]
          = Inr l1"
    and l2: "CrossEntropyLoss (batch_scores pixel_model [(bright_image, 0)]) [0] = Inr l2"
    unfolding chunks_three_samples m by (auto simp: map_eq_Cons_conv)
  have nb: "len_DataLoader three_samples = 2"
    by (simp add: len_DataLoader_def three_samples_def)
  have sz: "length (dataset three_samples) = 3" by (simp add: three_samples_def)
  from out have "stdout w' = [TestError (100 * (2 / 3)) ((l1 + l2) / 2)]"
    unfolding m classified_three_samples losses nb sz by (simp add: pixel_world_def)
  with run l1 l2 wf_pixel_world wf_three_samples chunks_three_samples
    scores_bright_image scores_zero_image
  show ?thesis by blast
qed

text \<open>
  C7. If the evaluation loop succeeds from a state, it succeeds again from the state it
  leaves and prints the same report (the same accuracy and the same average loss); the
  loop changes no parameter value and no gradient.
\<close>

theorem test_twice_same_report:
  assumes "test dl loss_fn w = Inr w1"
  shows "\<exists>report w2. stdout w1 = stdout w @ [report]
    \<and> test dl loss_fn w1 = Inr w2 \<and> stdout w2 = stdout w1 @ [report]
    \<and> named_parameters (model w1) = named_parameters (model w)
    \<and> named_parameters (model w2) = named_parameters (model w1)"
proof -
  let ?w0 = "w\<lparr>model := (model w)\<lparr>training := False\<rparr>\<rparr>"
  let ?v0 = "w1\<lparr>model := (model w1)\<lparr>training := False\<rparr>\<rparr>"
  from assms obtain test_loss correct u where
    lp: "test_loop loss_fn (chunks dl) (0, 0) ?w0 = Inr ((test_loss, correct), u)"
    and w1: "w1 = print_line (TestError (100 * (correct / real (length (dataset dl))))
       (test_loss / real (len_DataLoader dl))) u"
    and bs: "0 < batch_size dl" and ne: "dataset dl \<noteq> []"
    by (rule test_Inr)
  let ?r = "TestError (100 * (correct / real (length (dataset dl))))
       (test_loss / real (len_DataLoader dl))"
  from test_loop_trace [OF lp refl] obtain bs where
    u: "u = ?w0\<lparr>calls := calls ?w0 @ concat (map test_calls bs)\<rparr>"
    by blast
  have m1: "model w1 = (model w)\<lparr>training := False\<rparr>"
    using w1 u by (simp add: print_line_def)
  have st: "linear_relu_stack (model ?v0) = linear_relu_stack (model ?w0)"
    using m1 by simp
  from test_loop_trace [OF lp st] obtain bs' where
    lp2: "test_loop loss_fn (chunks dl) (0, 0) ?v0 =
      Inr ((test_loss, correct), ?v0\<lparr>calls := calls ?v0 @ concat (map test_calls bs')\<rparr>)"
    by blast
  have nb: "len_DataLoader dl \<noteq> 0"
  proof
    assume "len_DataLoader dl = 0"
    then have "chunks dl = []" by (simp add: chunks_def)
    with concat_chunks [OF bs] ne show False by simp
  qed
  let ?w2 = "print_line ?r (?v0\<lparr>calls := calls ?v0 @ concat (map test_calls bs')\<rparr>)"
  have run2: "test dl loss_fn w1 = Inr ?w2"
    using lp2 nb ne by (simp add: test_def Let_def)
  have o1: "stdout w1 = stdout w @ [?r]" using w1 u by (simp add: print_line_def)
  have o2: "stdout ?w2 = stdout w1 @ [?r]" by (simp add: print_line_def)
  have p1: "named_parameters (model w1) = named_parameters (model w)"
    using m1 by (simp add: named_parameters_def)
  have p2: "named_parameters (model ?w2) = named_parameters (model w1)"
    by (simp add: print_line_def named_parameters_def)
  from o1 run2 o2 p1 p2 show ?thesis by blast
qed

theorem test_twice_same_report_witness:
  "\<exists>w1. test two_samples CrossEntropyLoss zero_world = Inr w1
     \<and> (\<exists>report w2. stdout w1 = stdout zero_world @ [report]
       \<and> test two_samples CrossEntropyLoss w1 = Inr w2 \<and> stdout w2 = stdout w1 @ [report]
       \<and> named_parameters (model w1) = named_parameters (model zero_world)
       \<and> named_parameters (model w2) = named_parameters (model w1))"
proof -
  from test_two_samples obtain w1 where run: "test two_samples CrossEntropyLoss zero_world = Inr w1"
    by blast
  from test_twice_same_report [OF run] run show ?thesis by blast
qed

section \<open>The ranges of the reported accuracy and loss\<close>




section \<open>The single-sample inference\<close>

text \<open>
  C10. For a single sample of shape \<open>(1, 28, 28)\<close> the forward computation, which
  flattens from dimension 1, returns a tensor of shape \<open>(1, 10)\<close>; the argmax of its first
  row is the index of the maximum of the ten scores, an index below 10; so the class name of
  the prediction is found, the class name of the true label is found for a label of the data
  set (below 10), and the inference prints both.
\<close>

theorem single_sample_inference_in_range:
  assumes "wf_model (model w)" and "getitem test_data 1 = Inr (x, y)"
    and "wf_sample (x, y)" and "y < 10"
  shows "\<exists>pred row k. forward (model w) x = Inr pred \<and> shape pred = [1, 10]
    \<and> select0 pred 0 = Inr row \<and> argmax0 row = Inr k \<and> k < 10
    \<and> index_of_maximum k (spec_forward (model w) (data x))
    \<and> getitem classes k = Inr (classes ! k) \<and> getitem classes y = Inr (classes ! y)
    \<and> predict test_data w =
        Inr (print_line (Prediction (classes ! k) (classes ! y))
          (w\<lparr>model := (model w)\<lparr>training := False\<rparr>, calls := calls w @ [CallModel x]\<rparr>))"
proof -
  let ?row = "spec_forward (model w) (data x)"
  let ?k = "predicted_class (model w) x"
  note p = predict_wf [OF assms]
  have lrow: "length ?row = 10" using assms(1) by (rule length_spec_forward)
  then have ne: "?row \<noteq> []" by auto
  have fw: "forward (model w) x = Inr \<lparr>shape = [1, 10], data = ?row\<rparr>"
    using assms(1,3) by (rule forward_sample)
  have sel: "select0 \<lparr>shape = [1, 10], data = ?row\<rparr> 0 = Inr \<lparr>shape = [10], data = ?row\<rparr>"
    using lrow by (simp add: select0_def numel_def)
  have am: "argmax0 \<lparr>shape = [10], data = ?row\<rparr> = Inr ?k"
    by (simp add: argmax0_def predicted_class_def)
  have mx: "index_of_maximum ?k ?row"
    using ne by (simp add: index_of_maximum_argmax_list predicted_class_def)
  then have k: "?k < 10" using lrow by (simp add: index_of_maximum_def)
  have g1: "getitem classes ?k = Inr (classes ! ?k)"
    using k by (simp add: getitem_def classes_def)
  have g2: "getitem classes y = Inr (classes ! y)"
    using assms(4) by (simp add: getitem_def classes_def)
  show ?thesis
    using fw sel am p mx k g1 g2 by simp
qed

theorem single_sample_inference_in_range_witness:
  "wf_model (model pixel_world) \<and> getitem (dataset three_samples) 1 = Inr (zero_image, 0)
   \<and> wf_sample (zero_image, 0) \<and> (0::nat) < 10
   \<and> forward (model pixel_world) zero_image
        = Inr \<lparr>shape = [1, 10], data = [1 / 2, 0, 0, 0, 0, 0, 0, 0, 0, 0]\<rparr>
   \<and> predict (dataset three_samples) pixel_world =
        Inr (print_line (Prediction ''T-shirt/top'' ''T-shirt/top'')
          (pixel_world\<lparr>model := (model pixel_world)\<lparr>training := False\<rparr>,
             calls := calls pixel_world @ [CallModel zero_image]\<rparr>))"
proof -
  have l: "(0::nat) < 10" by simp
  have m: "model pixel_world = pixel_model" by (simp add: pixel_world_def)
  from single_sample_inference_in_range [OF wf_pixel_world getitem_three_samples wf_zero_image l]
  obtain pred row k where fw: "forward (model pixel_world) zero_image = Inr pred"
    and k: "index_of_maximum k (spec_forward (model pixel_world) (data zero_image))"
    and pr: "predict (dataset three_samples) pixel_world =
        Inr (print_line (Prediction (classes ! k) (classes ! 0))
          (pixel_world\<lparr>model := (model pixel_world)\<lparr>training := False\<rparr>,
             calls := calls pixel_world @ [CallModel zero_image]\<rparr>))"
    by blast
  from k have "argmax_list [1 / 2, 0, 0, 0, 0, 0, 0, 0, 0, 0] = k"
    unfolding m scores_zero_image by (simp add: index_of_maximum_argmax_list)
  then have "k = 0" by (simp add: Let_def)
  moreover have "classes ! 0 = ''T-shirt/top''" by (simp add: classes_def)
  moreover have "forward (model pixel_world) zero_image
        = Inr \<lparr>shape = [1, 10], data = [1 / 2, 0, 0, 0, 0, 0, 0, 0, 0, 0]\<rparr>"
    using forward_sample [OF wf_pixel_world wf_zero_image [of 0]]
    unfolding m scores_zero_image .
  ultimately show ?thesis
    using pr wf_pixel_world getitem_three_samples wf_zero_image [of 0] by simp
qed

end
